theory Spec2Isabelle
  imports Complex_Main
begin

text \<open>
  An embedding of two classes of omega-topology-fullstack. \<^verbatim>\<open>HoParameterSet\<close>
  (HoParameter.ts) keeps the homology support of a link in three parallel arrays and
  filters it with \<^verbatim>\<open>trim\<close>; \<^verbatim>\<open>PSICQuic\<close> (PSICQuic.ts) keeps Mitab records by couple of
  identifiers, without duplicates. Objects are values, a method takes the object and
  returns the one it leaves, and an exception is the left summand of the result. What
  the classes import (\<^verbatim>\<open>PSQData\<close>, the map of couples, \<^verbatim>\<open>zip\<close> and \<^verbatim>\<open>enumerate\<close>) is
  modelled by what this code uses of it.
\<close>

section \<open>ECMAScript numbers and the two string conversions the getters use\<close>

text \<open>
  \<^verbatim>\<open>HoParameter\<close> keeps its field vector as strings and converts on every read with
  \<^verbatim>\<open>parseInt\<close> and \<^verbatim>\<open>Number\<close>. A number is one of the IEEE specials or a finite value.
  \<open>Fin 0\<close> is \<open>+0\<close> and \<open>NZero\<close> is \<open>-0\<close>; the sign of a zero decides the sign of a
  quotient by it. Finite values are exact reals: rounding, overflow and underflow of
  doubles are not modelled. What the filtering pass depends on, the specials and the
  comparisons with \<open>NaN\<close>, is modelled as ECMAScript defines it.
\<close>

datatype jsnum = NaN | PInf | NInf | NZero | Fin real

definition is_neg :: "jsnum \<Rightarrow> bool" where
  "is_neg x = (case x of NaN \<Rightarrow> False | PInf \<Rightarrow> False | NInf \<Rightarrow> True
                 | NZero \<Rightarrow> True | Fin r \<Rightarrow> r < 0)"

definition is_inf :: "jsnum \<Rightarrow> bool" where
  "is_inf x = (x = PInf \<or> x = NInf)"

definition is_zero :: "jsnum \<Rightarrow> bool" where
  "is_zero x = (x = NZero \<or> x = Fin 0)"

definition num_val :: "jsnum \<Rightarrow> real" where
  "num_val x = (case x of Fin r \<Rightarrow> r | _ \<Rightarrow> 0)"

definition signed_inf :: "bool \<Rightarrow> jsnum" where
  "signed_inf neg = (if neg then NInf else PInf)"

definition signed_fin :: "bool \<Rightarrow> real \<Rightarrow> jsnum" where
  \<comment> \<open>a finite value from its sign and its magnitude\<close>
  "signed_fin neg m =
     (if m = 0 then (if neg then NZero else Fin 0) else Fin (if neg then - m else m))"

definition js_neg :: "jsnum \<Rightarrow> jsnum" where
  "js_neg x = (case x of NaN \<Rightarrow> NaN | PInf \<Rightarrow> NInf | NInf \<Rightarrow> PInf | NZero \<Rightarrow> Fin 0
                 | Fin r \<Rightarrow> if r = 0 then NZero else Fin (- r))"

definition js_add :: "jsnum \<Rightarrow> jsnum \<Rightarrow> jsnum" where
  "js_add x y =
     (if x = NaN \<or> y = NaN then NaN
      else if is_inf x then (if is_inf y \<and> x \<noteq> y then NaN else x)
      else if is_inf y then y
      else if is_zero x \<and> is_zero y then (if x = NZero \<and> y = NZero then NZero else Fin 0)
      else Fin (num_val x + num_val y))"

definition js_sub :: "jsnum \<Rightarrow> jsnum \<Rightarrow> jsnum" where
  "js_sub x y = js_add x (js_neg y)"

definition js_mul :: "jsnum \<Rightarrow> jsnum \<Rightarrow> jsnum" where
  "js_mul x y =
     (if x = NaN \<or> y = NaN then NaN
      else if is_inf x \<or> is_inf y then
        (if is_zero x \<or> is_zero y then NaN else signed_inf (is_neg x \<noteq> is_neg y))
      else signed_fin (is_neg x \<noteq> is_neg y) (\<bar>num_val x\<bar> * \<bar>num_val y\<bar>))"

definition js_div :: "jsnum \<Rightarrow> jsnum \<Rightarrow> jsnum" where
  "js_div x y =
     (if x = NaN \<or> y = NaN then NaN
      else if is_inf x then (if is_inf y then NaN else signed_inf (is_neg x \<noteq> is_neg y))
      else if is_inf y then signed_fin (is_neg x \<noteq> is_neg y) 0
      else if is_zero y then
        (if is_zero x then NaN else signed_inf (is_neg x \<noteq> is_neg y))
      else signed_fin (is_neg x \<noteq> is_neg y) (\<bar>num_val x\<bar> / \<bar>num_val y\<bar>))"

text \<open>
  The relational operators. Each is false as soon as one operand is \<open>NaN\<close>; the two
  zeros compare equal. \<open>ord_key\<close> places the other values on a line.
\<close>

definition ord_key :: "jsnum \<Rightarrow> int \<times> real" where
  "ord_key x = (case x of NaN \<Rightarrow> (0, 0) | NInf \<Rightarrow> (- 1, 0) | PInf \<Rightarrow> (1, 0)
                  | NZero \<Rightarrow> (0, 0) | Fin r \<Rightarrow> (0, r))"

definition key_less :: "int \<times> real \<Rightarrow> int \<times> real \<Rightarrow> bool" where
  "key_less a b = (fst a < fst b \<or> (fst a = fst b \<and> snd a < snd b))"

definition js_lt :: "jsnum \<Rightarrow> jsnum \<Rightarrow> bool" where
  "js_lt x y = (x \<noteq> NaN \<and> y \<noteq> NaN \<and> key_less (ord_key x) (ord_key y))"

definition js_gt :: "jsnum \<Rightarrow> jsnum \<Rightarrow> bool" where
  "js_gt x y = js_lt y x"

definition js_le :: "jsnum \<Rightarrow> jsnum \<Rightarrow> bool" where
  "js_le x y = (x \<noteq> NaN \<and> y \<noteq> NaN \<and> \<not> key_less (ord_key y) (ord_key x))"

definition js_ge :: "jsnum \<Rightarrow> jsnum \<Rightarrow> bool" where
  "js_ge x y = (x \<noteq> NaN \<and> y \<noteq> NaN \<and> \<not> key_less (ord_key x) (ord_key y))"

subsection \<open>parseInt and Number on strings\<close>

text \<open>
  Strings are byte strings, so the white space recognised is the ASCII part of
  ECMAScript's (tab, line feed, vertical tab, form feed, carriage return, space).
  An array read past the end gives \<^verbatim>\<open>undefined\<close>, here \<open>None\<close>.
\<close>

definition is_ws :: "char \<Rightarrow> bool" where
  "is_ws c = (of_char c \<in> {9, 10, 11, 12, 13, 32 :: nat})"

definition digit_of :: "nat \<Rightarrow> char \<Rightarrow> nat option" where
  "digit_of radix c =
     (let n = (of_char c :: nat);
          d = (if 48 \<le> n \<and> n \<le> 57 then Some (n - 48)
               else if 97 \<le> n \<and> n \<le> 122 then Some (n - 87)
               else if 65 \<le> n \<and> n \<le> 90 then Some (n - 55)
               else None)
      in case d of None \<Rightarrow> None | Some v \<Rightarrow> if v < radix then Some v else None)"

definition is_digit :: "nat \<Rightarrow> char \<Rightarrow> bool" where
  "is_digit radix c = (digit_of radix c \<noteq> None)"

definition digits_val :: "nat \<Rightarrow> string \<Rightarrow> nat" where
  "digits_val radix ds = foldl (\<lambda>a c. a * radix + the (digit_of radix c)) 0 ds"

definition ToString_arg :: "string option \<Rightarrow> string" where
  "ToString_arg v = (case v of None \<Rightarrow> ''undefined'' | Some s \<Rightarrow> s)"

definition has_sign :: "string \<Rightarrow> bool" where
  "has_sign s = (case s of [] \<Rightarrow> False | c # _ \<Rightarrow> c = CHR ''+'' \<or> c = CHR ''-'')"

definition has_minus :: "string \<Rightarrow> bool" where
  "has_minus s = (case s of [] \<Rightarrow> False | c # _ \<Rightarrow> c = CHR ''-'')"

definition has_prefix :: "char \<Rightarrow> string \<Rightarrow> bool" where
  \<comment> \<open>\<open>0x\<close>, \<open>0o\<close>, \<open>0b\<close> in either case; the letter is given in lower case\<close>
  "has_prefix l s =
     (case s of c # d # _ \<Rightarrow>
        c = CHR ''0'' \<and> (d = l \<or> (of_char d :: nat) + 32 = of_char l) | _ \<Rightarrow> False)"

definition parseInt :: "string option \<Rightarrow> jsnum" where
  "parseInt v =
     (let s0 = dropWhile is_ws (ToString_arg v);
          neg = has_minus s0;
          s1 = (if has_sign s0 then tl s0 else s0);
          hex = has_prefix CHR ''x'' s1;
          radix = (if hex then 16 else 10);
          s2 = (if hex then drop 2 s1 else s1);
          ds = takeWhile (is_digit radix) s2
      in if ds = [] then NaN else signed_fin neg (real (digits_val radix ds)))"

definition parse_exponent :: "string \<Rightarrow> int option" where
  \<comment> \<open>the rest of a decimal literal after its digits: nothing, or \<open>e\<close>, a sign, digits\<close>
  "parse_exponent s =
     (case s of [] \<Rightarrow> Some 0
      | c # r \<Rightarrow>
          if c = CHR ''e'' \<or> c = CHR ''E'' then
            (let ds = (if has_sign r then tl r else r)
             in if ds \<noteq> [] \<and> list_all (is_digit 10) ds
                then Some (if has_minus r then - int (digits_val 10 ds) else int (digits_val 10 ds))
                else None)
          else None)"

definition parse_decimal :: "string \<Rightarrow> real option" where
  \<comment> \<open>an unsigned decimal literal: digits, an optional fraction, an optional exponent\<close>
  "parse_decimal u =
     (let ip = takeWhile (is_digit 10) u;
          r1 = dropWhile (is_digit 10) u;
          dot = (case r1 of [] \<Rightarrow> False | c # _ \<Rightarrow> c = CHR ''.'');
          fp = (if dot then takeWhile (is_digit 10) (tl r1) else []);
          r2 = (if dot then dropWhile (is_digit 10) (tl r1) else r1)
      in if ip = [] \<and> fp = [] then None
         else case parse_exponent r2 of None \<Rightarrow> None
              | Some e \<Rightarrow>
                  Some (real (digits_val 10 (ip @ fp))
                          * (if 0 \<le> e then 10 ^ nat e else 1 / 10 ^ nat (- e))
                          / 10 ^ length fp))"

definition parse_radix :: "nat \<Rightarrow> string \<Rightarrow> jsnum" where
  \<comment> \<open>the digits after \<open>0x\<close>, \<open>0o\<close> or \<open>0b\<close>\<close>
  "parse_radix radix ds =
     (if ds \<noteq> [] \<and> list_all (is_digit radix) ds then Fin (real (digits_val radix ds)) else NaN)"

definition StringToNumber :: "string \<Rightarrow> jsnum" where
  "StringToNumber s =
     (let t = rev (dropWhile is_ws (rev (dropWhile is_ws s)))
      in if t = [] then Fin 0
         else if has_prefix CHR ''x'' t then parse_radix 16 (drop 2 t)
         else if has_prefix CHR ''o'' t then parse_radix 8 (drop 2 t)
         else if has_prefix CHR ''b'' t then parse_radix 2 (drop 2 t)
         else let u = (if has_sign t then tl t else t)
              in if u = ''Infinity'' then signed_inf (has_minus t)
                 else case parse_decimal u of None \<Rightarrow> NaN
                      | Some r \<Rightarrow> signed_fin (has_minus t) r)"

definition Number :: "string option \<Rightarrow> jsnum" where
  "Number v = (case v of None \<Rightarrow> NaN | Some s \<Rightarrow> StringToNumber s)"

section \<open>HoParameter: one homology support\<close>

type_synonym HVector = "string list"

record HoParameter =
  data :: HVector
  valid :: bool

definition elem_at :: "'a list \<Rightarrow> nat \<Rightarrow> 'a option" where
  \<comment> \<open>\<^verbatim>\<open>xs[i]\<close>: \<^verbatim>\<open>undefined\<close> past the end\<close>
  "elem_at xs i = (if i < length xs then Some (xs ! i) else None)"

definition new_HoParameter :: "HVector \<Rightarrow> HoParameter" where
  "new_HoParameter hVector = \<lparr>data = hVector, valid = True\<rparr>"

definition length_h :: "HoParameter \<Rightarrow> jsnum" where
  "length_h p = js_add (js_sub (parseInt (elem_at (data p) 3)) (parseInt (elem_at (data p) 2))) (Fin 1)"

definition template :: "HoParameter \<Rightarrow> string option" where
  "template p = elem_at (data p) 0"

definition simPct :: "HoParameter \<Rightarrow> jsnum" where
  "simPct p = js_div (js_mul (Fin 100) (Number (elem_at (data p) 7))) (length_h p)"

definition idPct :: "HoParameter \<Rightarrow> jsnum" where
  "idPct p = js_div (js_mul (Fin 100) (Number (elem_at (data p) 8))) (length_h p)"

definition cvPct :: "HoParameter \<Rightarrow> jsnum" where
  "cvPct p = js_div (js_mul (Fin 100) (length_h p)) (parseInt (elem_at (data p) 1))"

definition eValue :: "HoParameter \<Rightarrow> jsnum" where
  "eValue p = Number (elem_at (data p) 9)"

section \<open>HoParameterSet: the homology data of a link\<close>

text \<open>
  \<^verbatim>\<open>PSQData\<close> is imported from another module; the record holds the properties this code
  reads from it, and in \<open>columns\<close> the rest of the parsed line, which its own methods
  read. \<^verbatim>\<open>pmid\<close> and \<^verbatim>\<open>source\<close> are read under a non-null assertion, so they are
  strings here.
\<close>

record PSQData =
  ids :: "string \<times> string"
  pmid :: string
  source :: string
  interactionDetectionMethod :: string
  taxid :: "string list"
  raw :: "string option"
  columns :: "string list"

record MitabParameter =
  mitab_data :: PSQData
  mitab_valid :: bool

definition new_MitabParameter :: "PSQData \<Rightarrow> MitabParameter" where
  "new_MitabParameter d = \<lparr>mitab_data = d, mitab_valid = True\<rparr>"

record HoParameterSet =
  lowQueryParam :: "HoParameter list"
  highQueryParam :: "HoParameter list"
  mitabCouples :: "MitabParameter list list"
  visible :: bool

definition new_HoParameterSet :: HoParameterSet where
  "new_HoParameterSet =
     \<lparr>lowQueryParam = [], highQueryParam = [], mitabCouples = [], visible = True\<rparr>"

definition remove :: "HoParameterSet \<Rightarrow> HoParameterSet" where
  "remove s = s\<lparr>lowQueryParam := [], highQueryParam := [], visible := False\<rparr>"

definition add :: "HVector \<Rightarrow> HVector \<Rightarrow> HoParameterSet \<Rightarrow> HoParameterSet" where
  "add x y s =
     s\<lparr>lowQueryParam := lowQueryParam s @ [new_HoParameter x],
       highQueryParam := highQueryParam s @ [new_HoParameter y],
       mitabCouples := mitabCouples s @ [[]]\<rparr>"

definition from_obj :: "HoParameter list \<Rightarrow> HoParameter list \<Rightarrow> bool \<Rightarrow> HoParameterSet" where
  \<comment> \<open>the static \<^verbatim>\<open>from\<close>; its argument \<^verbatim>\<open>{lowQueryParam, highQueryParam, visible}\<close>
      has rows \<^verbatim>\<open>{data, valid}\<close>\<close>
  "from_obj low high vis =
     new_HoParameterSet
       \<lparr>lowQueryParam := map (\<lambda>l. (new_HoParameter (data l))\<lparr>valid := valid l\<rparr>) low,
        highQueryParam := map (\<lambda>l. (new_HoParameter (data l))\<lparr>valid := valid l\<rparr>) high,
        visible := vis\<rparr>"

subsection \<open>toString\<close>

text \<open>
  \<^verbatim>\<open>toString\<close> hands an object to \<^verbatim>\<open>JSON.stringify\<close>. The model stops at the value that
  is encoded: a tree of objects (members in order), arrays, strings and booleans. How
  a \<^verbatim>\<open>PSQData\<close> is encoded is that class's business and is a parameter.
\<close>

datatype json = JBool bool | JString string | JArray "json list" | JObject "(string \<times> json) list"

definition HoParameter_json :: "HoParameter \<Rightarrow> json" where
  \<comment> \<open>the own properties of a \<^verbatim>\<open>HoParameter\<close>; its getters are not serialised\<close>
  "HoParameter_json p =
     JObject [(''data'', JArray (map JString (data p))), (''valid'', JBool (valid p))]"

fun toString_low ::
  "MitabParameter list list \<Rightarrow> nat \<Rightarrow> HoParameter list \<Rightarrow> HoParameter list \<times> PSQData list list"
where
  \<comment> \<open>the callback of \<^verbatim>\<open>lowQueryParam.filter\<close>: the rows kept, and what it pushed\<close>
  "toString_low mc index [] = ([], [])"
| "toString_low mc index (e # es) =
     (let (kept, pushed) = toString_low mc (Suc index) es
      in (if valid e then e # kept else kept,
          if valid e \<and> index < length mc
          then map mitab_data (filter mitab_valid (mc ! index)) # pushed
          else pushed))"

definition toString :: "(PSQData \<Rightarrow> json) \<Rightarrow> HoParameterSet \<Rightarrow> json" where
  "toString enc s =
     (let (kept, pushed) = toString_low (mitabCouples s) 0 (lowQueryParam s)
      in JObject
           [(''lowQueryParam'', JArray (map HoParameter_json kept)),
            (''highQueryParam'', JArray (map HoParameter_json (filter valid (highQueryParam s)))),
            (''mitabCouples'', JArray (map (\<lambda>g. JArray (map enc g)) pushed))])"

definition members :: "json \<Rightarrow> (string \<times> json) list" where
  "members j = (case j of JObject ms \<Rightarrow> ms | _ \<Rightarrow> [])"

subsection \<open>trim\<close>

text \<open>The static \<^verbatim>\<open>DEFAULT_TAXON_SEARCH_MODE\<close>, which \<^verbatim>\<open>trim\<close> reads, is a parameter.\<close>

datatype taxon_mode = TAXON_EVERY | TAXON_SOME

text \<open>
  A field of a \<^verbatim>\<open>TrimFailReason\<close> is \<^verbatim>\<open>false\<close> or a template string
  \<^verbatim>\<open>`${value}, expected higher than ${threshold}`\<close>. \<open>Reason v m t\<close> is that string,
  kept as its two numbers \<open>v\<close> and \<open>t\<close> and the text \<open>m\<close> between them.
\<close>

datatype reason_field = No_reason | Reason jsnum string jsnum

record TrimFailReason =
  identity :: reason_field
  similarity :: reason_field
  e_value :: reason_field
  coverage :: reason_field

record trim_options =
  opt_simPct :: jsnum
  opt_idPct :: jsnum
  opt_cvPct :: jsnum
  opt_eValue :: jsnum
  exp_methods :: "string set option"
  taxons :: "string set option"
  definitive :: bool
  logged :: bool
  destroy_identical :: bool

definition default_options :: trim_options where
  "default_options =
     \<lparr>opt_simPct = Fin 0, opt_idPct = Fin 0, opt_cvPct = Fin 0, opt_eValue = Fin 1,
      exp_methods = None, taxons = None,
      definitive = False, logged = False, destroy_identical = False\<rparr>"

datatype js_error = TypeError

definition no_reason :: TrimFailReason where
  "no_reason =
     \<lparr>identity = No_reason, similarity = No_reason, e_value = No_reason, coverage = No_reason\<rparr>"

definition check_logged :: "trim_options \<Rightarrow> HoParameter \<Rightarrow> HoParameter \<times> TrimFailReason" where
  \<comment> \<open>the logged branch for one side: the flag is set, then cleared by each failing test\<close>
  "check_logged opts p =
     (let p0 = p\<lparr>valid := True\<rparr>;
          r0 = no_reason;
          (p1, r1) = (if js_lt (simPct p0) (opt_simPct opts)
                      then (p0\<lparr>valid := False\<rparr>,
                            r0\<lparr>similarity := Reason (simPct p0) '', expected higher than '' (opt_simPct opts)\<rparr>)
                      else (p0, r0));
          (p2, r2) = (if js_lt (idPct p1) (opt_idPct opts)
                      then (p1\<lparr>valid := False\<rparr>,
                            r1\<lparr>identity := Reason (idPct p1) '', expected higher than '' (opt_idPct opts)\<rparr>)
                      else (p1, r1));
          (p3, r3) = (if js_lt (cvPct p2) (opt_cvPct opts)
                      then (p2\<lparr>valid := False\<rparr>,
                            r2\<lparr>coverage := Reason (cvPct p2) '', expected higher than '' (opt_cvPct opts)\<rparr>)
                      else (p2, r2));
          (p4, r4) = (if js_gt (eValue p3) (opt_eValue opts)
                      then (p3\<lparr>valid := False\<rparr>,
                            r3\<lparr>e_value := Reason (eValue p3) '', expected lower than '' (opt_eValue opts)\<rparr>)
                      else (p3, r3))
      in (p4, r4))"

definition check_plain :: "trim_options \<Rightarrow> HoParameter \<Rightarrow> HoParameter" where
  \<comment> \<open>the other branch for one side\<close>
  "check_plain opts p =
     p\<lparr>valid := js_ge (simPct p) (opt_simPct opts) \<and> js_ge (idPct p) (opt_idPct opts)
                 \<and> js_ge (cvPct p) (opt_cvPct opts) \<and> js_le (eValue p) (opt_eValue opts)\<rparr>"

definition thresholds ::
  "trim_options \<Rightarrow> HoParameter \<Rightarrow> HoParameter
     \<Rightarrow> HoParameter \<times> HoParameter \<times> (TrimFailReason \<times> TrimFailReason) list"
where
  \<comment> \<open>lines 133 to 185; the list is what the iteration pushes on \<^verbatim>\<open>reasons\<close>\<close>
  "thresholds opts lo hi =
     (if logged opts
      then (fst (check_logged opts lo), fst (check_logged opts hi),
            [(snd (check_logged opts lo), snd (check_logged opts hi))])
      else (check_plain opts lo, check_plain opts hi, []))"

definition set_all_valid :: "bool \<Rightarrow> MitabParameter list \<Rightarrow> MitabParameter list" where
  "set_all_valid b ms = map (\<lambda>m. m\<lparr>mitab_valid := b\<rparr>) ms"

definition taxon_match :: "taxon_mode \<Rightarrow> string set \<Rightarrow> MitabParameter \<Rightarrow> bool" where
  "taxon_match mode tx l =
     (case mode of
        TAXON_EVERY \<Rightarrow> list_all (\<lambda>e. e \<in> tx) (taxid (mitab_data l))
      | TAXON_SOME \<Rightarrow> list_ex (\<lambda>e. e \<in> tx) (taxid (mitab_data l)))"

definition filter_mitab ::
  "taxon_mode \<Rightarrow> trim_options \<Rightarrow> MitabParameter list \<Rightarrow> MitabParameter list"
where
  \<comment> \<open>lines 201 to 215, inside \<^verbatim>\<open>if (mitab_lines_of)\<close>\<close>
  "filter_mitab mode opts ms =
     (let ms1 = (case exp_methods opts of
                   None \<Rightarrow> ms
                 | Some em \<Rightarrow>
                     map (\<lambda>l. l\<lparr>mitab_valid := interactionDetectionMethod (mitab_data l) \<in> em\<rparr>) ms)
      in case taxons opts of
           None \<Rightarrow> ms1
         | Some tx \<Rightarrow>
             map (\<lambda>l. l\<lparr>mitab_valid := (if \<not> mitab_valid l then False else taxon_match mode tx l)\<rparr>)
               ms1)"

type_synonym row = "HoParameter \<times> HoParameter \<times> MitabParameter list option"

definition invalidate :: "row \<Rightarrow> row \<times> bool" where
  \<comment> \<open>lines 221 to 227; the flag says that the index was pushed on \<^verbatim>\<open>to_remove\<close>\<close>
  "invalidate r =
     (case r of (lo, hi, mopt) \<Rightarrow>
        if \<not> valid lo \<or> \<not> valid hi
        then ((lo\<lparr>valid := False\<rparr>, hi\<lparr>valid := False\<rparr>, map_option (set_all_valid False) mopt), True)
        else ((lo, hi, mopt), False))"

definition trim_row :: "taxon_mode \<Rightarrow> trim_options \<Rightarrow> row \<Rightarrow> row + row \<times> bool" where
  \<comment> \<open>lines 188 to 227 for one index, after the thresholds. \<open>mopt\<close> is
      \<^verbatim>\<open>this.mitabCouples[index]\<close>, \<open>None\<close> when there is no such element.
      \<open>Inl\<close>: line 218 read \<^verbatim>\<open>filter\<close> of \<^verbatim>\<open>undefined\<close>; the row is as the throw left it.\<close>
  "trim_row mode opts r =
     (case r of (lo, hi, mopt) \<Rightarrow>
        let mopt1 = (if exp_methods opts = None then map_option (set_all_valid True) mopt else mopt)
        in if (exp_methods opts \<noteq> None \<or> taxons opts \<noteq> None) \<and> valid lo \<and> valid hi
           then (case mopt1 of
                   None \<Rightarrow> Inl (lo, hi, mopt1)
                 | Some mitab_lines_of \<Rightarrow>
                     let ms = filter_mitab mode opts mitab_lines_of;
                         v = (0 < length (filter mitab_valid ms))
                     in Inr (invalidate (lo\<lparr>valid := v\<rparr>, hi\<lparr>valid := v\<rparr>, Some ms)))
           else Inr (invalidate (lo, hi, mopt1)))"

definition mini_hash :: "HoParameter \<Rightarrow> HoParameter \<Rightarrow> string" where
  "mini_hash lo hi = concat (data lo) @ ''~'' @ concat (data hi)"

definition group_at :: "'a list \<Rightarrow> 'a option" where
  "group_at ms = (case ms of [] \<Rightarrow> None | m # _ \<Rightarrow> Some m)"

definition group_put :: "'a option \<Rightarrow> 'a list \<Rightarrow> 'a list" where
  "group_put mopt rest = (case mopt of None \<Rightarrow> rest | Some m \<Rightarrow> m # rest)"

type_synonym rows = "HoParameter list \<times> HoParameter list \<times> MitabParameter list list"

fun trim_loop ::
  "taxon_mode \<Rightarrow> trim_options \<Rightarrow> nat \<Rightarrow> string set
     \<Rightarrow> HoParameter list \<Rightarrow> HoParameter list \<Rightarrow> MitabParameter list list
     \<Rightarrow> rows + rows \<times> (TrimFailReason \<times> TrimFailReason) list \<times> nat list"
where
  \<comment> \<open>the \<^verbatim>\<open>for\<close> loop from position \<open>index\<close> on: the iterator zips the two parameter
      arrays, so it ends with the shorter one. \<open>hashes\<close> holds the keys seen so far.
      The result is the three arrays with the flags as the loop left them, and for a
      loop that ran to its end \<^verbatim>\<open>reasons\<close> and \<^verbatim>\<open>to_remove\<close>. (\<^verbatim>\<open>hashes\<close> is an object and
      \<^verbatim>\<open>in\<close> also finds what it inherits, but no key is such a name: each has a \<^verbatim>\<open>~\<close>.)\<close>
  "trim_loop mode opts index hashes (lo # los) (hi # his) mits =
     (case thresholds opts lo hi of (lo1, hi1, rs) \<Rightarrow>
      case trim_row mode opts (lo1, hi1, group_at mits) of
        Inl (lo2, hi2, mopt2) \<Rightarrow> Inl (lo2 # los, hi2 # his, group_put mopt2 (tl mits))
      | Inr ((lo2, hi2, mopt2), invalid) \<Rightarrow>
          let hash = mini_hash lo2 hi2;
              dup = (destroy_identical opts \<and> hash \<in> hashes);
              hashes2 = (if destroy_identical opts \<and> \<not> dup then insert hash hashes else hashes);
              marks = (if invalid then [index] else []) @ (if dup then [index] else [])
          in case trim_loop mode opts (Suc index) hashes2 los his (tl mits) of
               Inl (ls, hs, ms) \<Rightarrow> Inl (lo2 # ls, hi2 # hs, group_put mopt2 ms)
             | Inr ((ls, hs, ms), reasons, to_remove) \<Rightarrow>
                 Inr ((lo2 # ls, hi2 # hs, group_put mopt2 ms), rs @ reasons, marks @ to_remove))"
| "trim_loop mode opts index hashes los his mits = Inr ((los, his, mits), [], [])"

fun filter_index :: "(nat \<Rightarrow> bool) \<Rightarrow> nat \<Rightarrow> 'a list \<Rightarrow> 'a list" where
  \<comment> \<open>\<^verbatim>\<open>xs.filter((_, index) => P(index))\<close>, counting from \<open>i\<close>\<close>
  "filter_index P i [] = []"
| "filter_index P i (x # xs) =
     (if P i then x # filter_index P (Suc i) xs else filter_index P (Suc i) xs)"

definition compact :: "nat list \<Rightarrow> HoParameterSet \<Rightarrow> HoParameterSet" where
  \<comment> \<open>lines 243 to 245\<close>
  "compact to_remove s =
     s\<lparr>lowQueryParam := filter_index (\<lambda>index. index \<notin> set to_remove) 0 (lowQueryParam s),
       highQueryParam := filter_index (\<lambda>index. index \<notin> set to_remove) 0 (highQueryParam s),
       mitabCouples := filter_index (\<lambda>index. index \<notin> set to_remove) 0 (mitabCouples s)\<rparr>"

definition with_rows :: "rows \<Rightarrow> HoParameterSet \<Rightarrow> HoParameterSet" where
  "with_rows r s =
     (case r of (ls, hs, ms) \<Rightarrow>
        s\<lparr>lowQueryParam := ls, highQueryParam := hs, mitabCouples := ms, visible := True\<rparr>)"

definition trim_pass ::
  "taxon_mode \<Rightarrow> trim_options \<Rightarrow> HoParameterSet
     \<Rightarrow> HoParameterSet + HoParameterSet \<times> (TrimFailReason \<times> TrimFailReason) list \<times> nat list"
where
  \<comment> \<open>lines 125 to 240: the set after the loop, \<^verbatim>\<open>reasons\<close> and \<^verbatim>\<open>to_remove\<close>\<close>
  "trim_pass mode opts s =
     (case trim_loop mode opts 0 {} (lowQueryParam s) (highQueryParam s) (mitabCouples s) of
        Inl r \<Rightarrow> Inl (with_rows r s)
      | Inr (r, reasons, to_remove) \<Rightarrow> Inr (with_rows r s, reasons, to_remove))"

definition trim ::
  "taxon_mode \<Rightarrow> trim_options \<Rightarrow> HoParameterSet
     \<Rightarrow> js_error \<times> HoParameterSet + HoParameterSet \<times> (TrimFailReason \<times> TrimFailReason) list"
where
  \<comment> \<open>\<open>mode\<close> is the static \<^verbatim>\<open>DEFAULT_TAXON_SEARCH_MODE\<close>. \<open>Inr\<close>: the set as the call
      left it and the value returned. \<open>Inl\<close>: the call threw, and the set as it left it.\<close>
  "trim mode opts s =
     (case trim_pass mode opts s of
        Inl s1 \<Rightarrow> Inl (TypeError, s1)
      | Inr (s1, reasons, to_remove) \<Rightarrow>
          Inr (if definitive opts then compact to_remove s1 else s1, reasons))"

section \<open>PSICQuic: the store of Mitab records\<close>

text \<open>
  \<^verbatim>\<open>records\<close> is a \<^verbatim>\<open>ReversibleKeyMap\<close>, a map of the package \<^verbatim>\<open>reversible-key-map\<close>
  whose keys are couples \<open>(id1, id2)\<close> read in either order. It is modelled as the
  list of its entries in the order its iterator yields them: a couple is looked up in
  both orders, and \<^verbatim>\<open>set\<close> replaces the value of the entry of that couple where it
  stands, or adds an entry. Where the iterator yields a new entry is the package's
  choice; the model puts it last, and no property below depends on the place.
\<close>

type_synonym PSQDataHolder = "((string \<times> string) \<times> PSQData list) list"

definition same_couple :: "string \<times> string \<Rightarrow> string \<times> string \<Rightarrow> bool" where
  "same_couple k k' = (k = k' \<or> k = (snd k', fst k'))"

definition rkm_get :: "PSQDataHolder \<Rightarrow> string \<times> string \<Rightarrow> PSQData list option" where
  "rkm_get m k = map_option snd (find (\<lambda>e. same_couple (fst e) k) m)"

definition rkm_hasCouple :: "PSQDataHolder \<Rightarrow> string \<times> string \<Rightarrow> bool" where
  "rkm_hasCouple m k = (rkm_get m k \<noteq> None)"

fun rkm_set :: "PSQDataHolder \<Rightarrow> string \<times> string \<Rightarrow> PSQData list \<Rightarrow> PSQDataHolder" where
  "rkm_set [] k v = [(k, v)]"
| "rkm_set (e # m) k v =
     (if same_couple (fst e) k then (fst e, v) # m else e # rkm_set m k v)"

record PSICQuic =
  records :: PSQDataHolder
  registredPublications :: "string \<rightharpoonup> string"
  keep_raw :: bool

definition new_PSICQuic :: PSICQuic where
  "new_PSICQuic = \<lparr>records = [], registredPublications = Map.empty, keep_raw = False\<rparr>"

definition toLowerCase :: "string \<Rightarrow> string" where
  \<comment> \<open>on the ASCII letters; other bytes stay as they are\<close>
  "toLowerCase s =
     map (\<lambda>c. if 65 \<le> (of_char c :: nat) \<and> (of_char c :: nat) \<le> 90
               then char_of ((of_char c :: nat) + 32) else c) s"

definition object_prototype_keys :: "string list" where
  \<comment> \<open>\<^verbatim>\<open>registredPublications\<close> starts as \<^verbatim>\<open>{}\<close>, and \<^verbatim>\<open>in\<close> also finds what an object
      inherits\<close>
  "object_prototype_keys =
     [''constructor'', ''__defineGetter__'', ''__defineSetter__'', ''hasOwnProperty'',
      ''__lookupGetter__'', ''__lookupSetter__'', ''isPrototypeOf'',
      ''propertyIsEnumerable'', ''toString'', ''valueOf'', ''__proto__'', ''toLocaleString'']"

definition checkPsqData :: "PSQData \<Rightarrow> PSICQuic \<Rightarrow> bool \<times> PSICQuic" where
  \<comment> \<open>the value returned and the store with its registry; an inherited property is
      never equal to a source, which is a lower-case string\<close>
  "checkPsqData psqDataObj st =
     (let pmid = pmid psqDataObj;
          source = toLowerCase (source psqDataObj)
      in if \<not> (pmid \<in> dom (registredPublications st) \<or> pmid \<in> set object_prototype_keys)
         then (True, st\<lparr>registredPublications := (registredPublications st)(pmid \<mapsto> source)\<rparr>)
         else if registredPublications st pmid = Some source then (True, st)
         else (False, st))"

definition hasCouple :: "PSICQuic \<Rightarrow> string \<Rightarrow> string \<Rightarrow> bool" where
  "hasCouple st id1 id2 = rkm_hasCouple (records st) (id1, id2)"

definition getLines :: "PSICQuic \<Rightarrow> string \<Rightarrow> string \<Rightarrow> PSQData list" where
  "getLines st id1 id2 =
     (if hasCouple st id1 id2 then the (rkm_get (records st) (id1, id2)) else [])"

definition update :: "(PSQData \<Rightarrow> PSQData \<Rightarrow> bool) \<Rightarrow> PSQData \<Rightarrow> PSICQuic \<Rightarrow> PSICQuic" where
  \<comment> \<open>\<open>equal line psq\<close> is \<^verbatim>\<open>line.equal(psq)\<close>, a method of \<^verbatim>\<open>PSQData\<close>\<close>
  "update equal psq st =
     (case ids psq of (id1, id2) \<Rightarrow>
        let actual_array = getLines st id1 id2
        in if list_all (\<lambda>line. \<not> equal line psq) actual_array
           then st\<lparr>records := rkm_set (records st) (id1, id2) (actual_array @ [psq])\<rparr>
           else st)"

definition all_lines :: "PSICQuic \<Rightarrow> PSQData list" where
  \<comment> \<open>the records in the order the iterator yields them\<close>
  "all_lines st = concat (map snd (records st))"

definition plus_line :: "(PSQData \<Rightarrow> PSQData \<Rightarrow> bool) \<Rightarrow> PSICQuic \<Rightarrow> PSQData \<Rightarrow> PSICQuic" where
  \<comment> \<open>the body of the inner loop of \<^verbatim>\<open>plus\<close>\<close>
  "plus_line equal st line =
     (case checkPsqData line st of (ok, st1) \<Rightarrow> if ok then update equal line st1 else st1)"

definition plus :: "(PSQData \<Rightarrow> PSQData \<Rightarrow> bool) \<Rightarrow> PSICQuic \<Rightarrow> PSICQuic \<Rightarrow> PSICQuic" where
  \<comment> \<open>\<open>plus equal st other\<close> is \<^verbatim>\<open>st.plus(other)\<close>\<close>
  "plus equal st other = foldl (plus_line equal) st (all_lines other)"

text \<open>
  The sources hold a second, later copy of this class, printed after \<^verbatim>\<open>HoParameter\<close>'s.
  There \<^verbatim>\<open>add(...psqs)\<close> runs the body of \<^verbatim>\<open>update\<close> for each argument, and \<^verbatim>\<open>plus\<close> is
  \<^verbatim>\<open>this.add(...value)\<close> for each sequence of the other store, with no check.
\<close>

definition add_psqs :: "(PSQData \<Rightarrow> PSQData \<Rightarrow> bool) \<Rightarrow> PSQData list \<Rightarrow> PSICQuic \<Rightarrow> PSICQuic" where
  "add_psqs equal psqs st = foldl (\<lambda>s psq. update equal psq s) st psqs"

definition plus_add :: "(PSQData \<Rightarrow> PSQData \<Rightarrow> bool) \<Rightarrow> PSICQuic \<Rightarrow> PSICQuic \<Rightarrow> PSICQuic" where
  "plus_add equal st other = foldl (\<lambda>s value. add_psqs equal value s) st (map snd (records other))"

section \<open>Predicates the properties are stated with\<close>

definition parallel :: "HoParameterSet \<Rightarrow> bool" where
  \<comment> \<open>the three sequences have one length\<close>
  "parallel s =
     (length (lowQueryParam s) = length (highQueryParam s)
      \<and> length (highQueryParam s) = length (mitabCouples s))"

definition same_lengths :: "HoParameterSet \<Rightarrow> HoParameterSet \<Rightarrow> bool" where
  "same_lengths s' s =
     (length (lowQueryParam s') = length (lowQueryParam s)
      \<and> length (highQueryParam s') = length (highQueryParam s)
      \<and> length (mitabCouples s') = length (mitabCouples s))"

definition reason_of :: "trim_options \<Rightarrow> HoParameter \<Rightarrow> TrimFailReason" where
  \<comment> \<open>the reason object the logged branch fills for one side\<close>
  "reason_of opts p = snd (check_logged opts p)"

definition no_NaN :: "trim_options \<Rightarrow> HoParameter \<Rightarrow> bool" where
  \<comment> \<open>no derived value of the row and no threshold is \<open>NaN\<close>\<close>
  "no_NaN opts p =
     (simPct p \<noteq> NaN \<and> idPct p \<noteq> NaN \<and> cvPct p \<noteq> NaN \<and> eValue p \<noteq> NaN
      \<and> opt_simPct opts \<noteq> NaN \<and> opt_idPct opts \<noteq> NaN \<and> opt_cvPct opts \<noteq> NaN
      \<and> opt_eValue opts \<noteq> NaN)"

definition forget_reasons ::
  "rows + rows \<times> (TrimFailReason \<times> TrimFailReason) list \<times> nat list \<Rightarrow> rows + rows \<times> nat list"
where
  \<comment> \<open>what a loop did, without the reasons it collected\<close>
  "forget_reasons x = (case x of Inl r \<Rightarrow> Inl r | Inr (r, rs, rem) \<Rightarrow> Inr (r, rem))"

text \<open>Field vectors used where a property is shown on a concrete set.\<close>

definition rowA :: HVector where
  "rowA = [''P1'', ''100'', ''1'', ''50'', '''', '''', '''', ''40'', ''45'', ''0.01'']"

definition rowB :: HVector where
  "rowB = [''P2'', ''100'', ''1'', ''50'', '''', '''', '''', ''30'', ''45'', ''0.01'']"

definition rowN :: HVector where
  \<comment> \<open>the similarity count is not a number\<close>
  "rowN = [''P3'', ''100'', ''1'', ''50'', '''', '''', '''', ''n/a'', ''45'', ''0.01'']"

definition rowX :: HVector where
  \<comment> \<open>no numeric field is a number\<close>
  "rowX = [''P4'', ''?'', ''?'', ''?'', '''', '''', '''', ''?'', ''?'', ''?'']"

text \<open>
  For the store: a record is represented when the sequence of its couple holds a line
  equal to it, which is when \<^verbatim>\<open>update\<close> leaves the store alone. \<open>accepted_by\<close> and
  \<open>known_in\<close> read a registry the way \<^verbatim>\<open>checkPsqData\<close> does. A store is well formed
  when no couple has two entries and every entry holds records of its couple, as in
  every store built by \<^verbatim>\<open>update\<close>.
\<close>

definition represented :: "(PSQData \<Rightarrow> PSQData \<Rightarrow> bool) \<Rightarrow> PSICQuic \<Rightarrow> PSQData \<Rightarrow> bool" where
  "represented equal st r =
     list_ex (\<lambda>line. equal line r) (getLines st (fst (ids r)) (snd (ids r)))"

definition accepted_by :: "(string \<rightharpoonup> string) \<Rightarrow> PSQData \<Rightarrow> bool" where
  "accepted_by reg r = (reg (pmid r) = Some (toLowerCase (source r)))"

definition known_in :: "(string \<rightharpoonup> string) \<Rightarrow> PSQData \<Rightarrow> bool" where
  "known_in reg r = (pmid r \<in> dom reg \<or> pmid r \<in> set object_prototype_keys)"

definition settled :: "(PSQData \<Rightarrow> PSQData \<Rightarrow> bool) \<Rightarrow> PSICQuic \<Rightarrow> PSQData \<Rightarrow> bool" where
  \<comment> \<open>a record that one more pass of \<^verbatim>\<open>plus\<close> over it would leave the store alone for\<close>
  "settled equal st r =
     (known_in (registredPublications st) r
      \<and> (if accepted_by (registredPublications st) r then represented equal st r else True))"

fun wf_entries :: "PSQDataHolder \<Rightarrow> bool" where
  "wf_entries [] = True"
| "wf_entries (e # m) =
     (list_all (\<lambda>r. same_couple (ids r) (fst e)) (snd e)
      \<and> list_all (\<lambda>e'. \<not> same_couple (fst e') (fst e)) m
      \<and> wf_entries m)"

definition wf_store :: "PSICQuic \<Rightarrow> bool" where
  "wf_store st = wf_entries (records st)"

definition psqA :: PSQData where
  "psqA = \<lparr>ids = (''x'', ''y''), pmid = ''p1'', source = ''IntAct'',
            interactionDetectionMethod = ''MI:0018'', taxid = [''9606''], raw = None, columns = []\<rparr>"

definition psqB :: PSQData where
  \<comment> \<open>the publication of \<open>psqA\<close>, from another source\<close>
  "psqB = \<lparr>ids = (''x'', ''z''), pmid = ''p1'', source = ''MINT'',
            interactionDetectionMethod = ''MI:0018'', taxid = [''9606''], raw = None, columns = []\<rparr>"

definition psqC :: PSQData where
  \<comment> \<open>the couple of \<open>psqA\<close>, read the other way\<close>
  "psqC = \<lparr>ids = (''y'', ''x''), pmid = ''p2'', source = ''intact'',
            interactionDetectionMethod = ''MI:0096'', taxid = [''9606''], raw = None, columns = []\<rparr>"

definition store3 :: PSICQuic where
  "store3 = update (=) psqC (update (=) psqB (update (=) psqA new_PSICQuic))"

section \<open>The filtering pass, iteration by iteration\<close>

lemma trim_row_Inl_shape:
  "trim_row mode opts (lo, hi, mopt) = Inl r \<Longrightarrow> mopt = None \<and> r = (lo, hi, None)"
  by (auto simp: trim_row_def Let_def split: if_splits option.splits)

lemma invalidate_shape:
  "invalidate (lo, hi, mopt) = ((lo2, hi2, mopt2), b) \<Longrightarrow>
     (mopt2 = None) = (mopt = None) \<and> data lo2 = data lo \<and> data hi2 = data hi"
  by (auto simp: invalidate_def split: if_splits)

lemma trim_row_Inr_shape:
  "trim_row mode opts (lo, hi, mopt) = Inr ((lo2, hi2, mopt2), b) \<Longrightarrow>
     (mopt2 = None) = (mopt = None) \<and> data lo2 = data lo \<and> data hi2 = data hi"
  by (auto simp: trim_row_def Let_def split: if_splits option.splits dest!: invalidate_shape)

lemma length_group_put:
  "(mopt2 = None) = (group_at ms = None) \<Longrightarrow> length ms' = length (tl ms) \<Longrightarrow>
     length (group_put mopt2 ms') = length ms"
  by (cases ms; cases mopt2) (auto simp: group_put_def group_at_def)

text \<open>What one iteration did, read off a loop that threw or ended.\<close>

lemma trim_loop_Cons_Inl:
  assumes "trim_loop mode opts index hashes (lo # los) (hi # his) mits = Inl (ls, hs, ms)"
  obtains (here) lo1 hi1 rs1 where
      "thresholds opts lo hi = (lo1, hi1, rs1)"
      "trim_row mode opts (lo1, hi1, group_at mits) = Inl (lo1, hi1, None)"
      "group_at mits = None"
      "ls = lo1 # los" "hs = hi1 # his" "ms = tl mits"
  | (later) lo1 hi1 rs1 lo2 hi2 mopt2 invalid ls' hs' ms' where
      "thresholds opts lo hi = (lo1, hi1, rs1)"
      "trim_row mode opts (lo1, hi1, group_at mits) = Inr ((lo2, hi2, mopt2), invalid)"
      "trim_loop mode opts (Suc index)
         (if destroy_identical opts \<and> mini_hash lo2 hi2 \<notin> hashes
          then insert (mini_hash lo2 hi2) hashes else hashes) los his (tl mits) = Inl (ls', hs', ms')"
      "ls = lo2 # ls'" "hs = hi2 # hs'" "ms = group_put mopt2 ms'"
proof -
  obtain lo1 hi1 rs1 where th: "thresholds opts lo hi = (lo1, hi1, rs1)"
    by (cases "thresholds opts lo hi") auto
  show thesis
  proof (cases "trim_row mode opts (lo1, hi1, group_at mits)")
    case (Inl r)
    from trim_row_Inl_shape[OF Inl] have r: "group_at mits = None" "r = (lo1, hi1, None)" by auto
    with assms th Inl have "ls = lo1 # los" "hs = hi1 # his" "ms = tl mits"
      by (auto simp: group_put_def)
    with th Inl r show ?thesis using here by blast
  next
    case (Inr q)
    obtain lo2 hi2 mopt2 invalid where q: "q = ((lo2, hi2, mopt2), invalid)"
      by (cases q) auto
    let ?h = "if destroy_identical opts \<and> mini_hash lo2 hi2 \<notin> hashes
          then insert (mini_hash lo2 hi2) hashes else hashes"
    from assms th Inr q obtain ls' hs' ms' where
      "trim_loop mode opts (Suc index) ?h los his (tl mits) = Inl (ls', hs', ms')"
      "ls = lo2 # ls'" "hs = hi2 # hs'" "ms = group_put mopt2 ms'"
      by (auto simp: Let_def split: sum.splits prod.splits if_splits)
    with th Inr q show ?thesis using later by blast
  qed
qed

lemma trim_loop_Cons_Inr:
  assumes "trim_loop mode opts index hashes (lo # los) (hi # his) mits = Inr ((ls, hs, ms), rs, rem)"
  obtains lo1 hi1 rs1 lo2 hi2 mopt2 invalid ls' hs' ms' rs' rem' where
      "thresholds opts lo hi = (lo1, hi1, rs1)"
      "trim_row mode opts (lo1, hi1, group_at mits) = Inr ((lo2, hi2, mopt2), invalid)"
      "trim_loop mode opts (Suc index)
         (if destroy_identical opts \<and> mini_hash lo2 hi2 \<notin> hashes
          then insert (mini_hash lo2 hi2) hashes else hashes) los his (tl mits)
         = Inr ((ls', hs', ms'), rs', rem')"
      "ls = lo2 # ls'" "hs = hi2 # hs'" "ms = group_put mopt2 ms'" "rs = rs1 @ rs'"
      "rem = (if invalid then [index] else [])
               @ (if destroy_identical opts \<and> mini_hash lo2 hi2 \<in> hashes then [index] else []) @ rem'"
proof -
  obtain lo1 hi1 rs1 where th: "thresholds opts lo hi = (lo1, hi1, rs1)"
    by (cases "thresholds opts lo hi") auto
  show thesis
  proof (cases "trim_row mode opts (lo1, hi1, group_at mits)")
    case (Inl r)
    with assms th show ?thesis by (auto split: prod.splits)
  next
    case (Inr q)
    obtain lo2 hi2 mopt2 invalid where q: "q = ((lo2, hi2, mopt2), invalid)"
      by (cases q) auto
    let ?h = "if destroy_identical opts \<and> mini_hash lo2 hi2 \<notin> hashes
          then insert (mini_hash lo2 hi2) hashes else hashes"
    from assms th Inr q obtain ls' hs' ms' rs' rem' where
      "trim_loop mode opts (Suc index) ?h los his (tl mits) = Inr ((ls', hs', ms'), rs', rem')"
      "ls = lo2 # ls'" "hs = hi2 # hs'" "ms = group_put mopt2 ms'" "rs = rs1 @ rs'"
      "rem = (if invalid then [index] else [])
               @ (if destroy_identical opts \<and> mini_hash lo2 hi2 \<in> hashes then [index] else []) @ rem'"
      by (auto simp: Let_def split: sum.splits prod.splits if_splits)
    with th Inr q show ?thesis using that by blast
  qed
qed

lemma trim_loop_end:
  "los = [] \<or> his = [] \<Longrightarrow> trim_loop mode opts index hashes los his mits = Inr ((los, his, mits), [], [])"
  by (cases los; cases his) auto

lemma trim_loop_length_Inr:
  "trim_loop mode opts index hashes los his mits = Inr ((ls, hs, ms), rs, rem) \<Longrightarrow>
      length ls = length los \<and> length hs = length his \<and> length ms = length mits"
proof (induction los arbitrary: his mits index hashes ls hs ms rs rem)
  case Nil
  then show ?case by (simp add: trim_loop_end)
next
  case (Cons lo los)
  show ?case
  proof (cases his)
    case Nil
    with Cons.prems show ?thesis by (simp add: trim_loop_end)
  next
    case (Cons hi his')
    from Cons.prems[unfolded Cons] show ?thesis
    proof (cases rule: trim_loop_Cons_Inr)
      case (1 lo1 hi1 rs1 lo2 hi2 mopt2 invalid ls' hs' ms' rs' rem')
      from Cons.IH[OF 1(3)] trim_row_Inr_shape[OF 1(2)] 1 Cons
      show ?thesis by (simp add: length_group_put)
    qed
  qed
qed

lemma trim_loop_length_Inl:
  "trim_loop mode opts index hashes los his mits = Inl (ls, hs, ms) \<Longrightarrow>
      length ls = length los \<and> length hs = length his \<and> length ms = length mits"
proof (induction los arbitrary: his mits index hashes ls hs ms)
  case Nil
  then show ?case by (simp add: trim_loop_end)
next
  case (Cons lo los)
  show ?case
  proof (cases his)
    case Nil
    with Cons.prems show ?thesis by (simp add: trim_loop_end)
  next
    case (Cons hi his')
    from Cons.prems[unfolded Cons] show ?thesis
    proof (cases rule: trim_loop_Cons_Inl)
      case (here lo1 hi1 rs1)
      with Cons show ?thesis by (cases mits) (auto simp: group_at_def)
    next
      case (later lo1 hi1 rs1 lo2 hi2 mopt2 invalid ls' hs' ms')
      from Cons.IH[OF later(3)] trim_row_Inr_shape[OF later(2)] later Cons
      show ?thesis by (simp add: length_group_put)
    qed
  qed
qed

lemma trim_row_returns:
  "\<exists>q. trim_row mode opts (lo, hi, Some m) = Inr q"
  by (cases "trim_row mode opts (lo, hi, Some m)") (auto dest: trim_row_Inl_shape)

lemma trim_loop_returns:
  "min (length los) (length his) \<le> length mits \<Longrightarrow>
     \<exists>q. trim_loop mode opts index hashes los his mits = Inr q"
proof (induction los arbitrary: his mits index hashes)
  case Nil
  then show ?case by (simp add: trim_loop_end)
next
  case (Cons lo los)
  show ?case
  proof (cases his)
    case Nil
    then show ?thesis by (simp add: trim_loop_end)
  next
    case hs: (Cons hi his')
    with Cons.prems obtain m mits' where mits: "mits = m # mits'"
      by (cases mits) auto
    obtain lo1 hi1 rs1 where th: "thresholds opts lo hi = (lo1, hi1, rs1)"
      by (cases "thresholds opts lo hi") auto
    obtain lo2 hi2 mopt2 invalid where
      row: "trim_row mode opts (lo1, hi1, Some m) = Inr ((lo2, hi2, mopt2), invalid)"
      using trim_row_returns[of mode opts lo1 hi1 m] by auto
    from Cons.prems hs mits have "min (length los) (length his') \<le> length mits'" by simp
    from Cons.IH[OF this] obtain q where
      "trim_loop mode opts (Suc index)
         (if destroy_identical opts \<and> mini_hash lo2 hi2 \<notin> hashes
          then insert (mini_hash lo2 hi2) hashes else hashes) los his' mits' = Inr q"
      by blast
    with th row hs mits show ?thesis
      by (cases q) (auto simp: Let_def group_at_def)
  qed
qed

lemma trim_loop_reasons:
  "trim_loop mode opts index hashes los his mits = Inr ((ls, hs, ms), rs, rem) \<Longrightarrow>
     rs = (if logged opts
           then map (\<lambda>(lo, hi). (snd (check_logged opts lo), snd (check_logged opts hi))) (zip los his)
           else [])"
proof (induction los arbitrary: his mits index hashes ls hs ms rs rem)
  case Nil
  then show ?case by (simp add: trim_loop_end)
next
  case (Cons lo los)
  show ?case
  proof (cases his)
    case Nil
    with Cons.prems show ?thesis by (simp add: trim_loop_end)
  next
    case hs: (Cons hi his')
    from Cons.prems[unfolded hs] show ?thesis
    proof (cases rule: trim_loop_Cons_Inr)
      case (1 lo1 hi1 rs1 lo2 hi2 mopt2 invalid ls' hs' ms' rs' rem')
      from 1(1) have "rs1 = (if logged opts
           then [(snd (check_logged opts lo), snd (check_logged opts hi))] else [])"
        by (auto simp: thresholds_def split: if_splits)
      with Cons.IH[OF 1(3)] 1(7) hs show ?thesis by simp
    qed
  qed
qed

lemma filter_index_nths: "filter_index P i xs = nths xs {j. P (j + i)}"
  by (induction xs arbitrary: i) (simp_all add: nths_Cons)

lemma check_logged_data: "data (fst (check_logged opts p)) = data p"
  by (simp add: check_logged_def Let_def)

lemma thresholds_data:
  "thresholds opts lo hi = (lo1, hi1, rs1) \<Longrightarrow> data lo1 = data lo \<and> data hi1 = data hi"
  by (auto simp: thresholds_def check_logged_data check_plain_def split: if_splits)

lemma invalidate_flag:
  "invalidate (lo, hi, mopt) = ((lo2, hi2, mopt2), b) \<Longrightarrow> b = (\<not> valid lo2) \<and> valid hi2 = valid lo2"
  by (auto simp: invalidate_def split: if_splits)

lemma trim_row_flag:
  "trim_row mode opts (lo, hi, mopt) = Inr ((lo2, hi2, mopt2), b) \<Longrightarrow>
     b = (\<not> valid lo2) \<and> valid hi2 = valid lo2"
  by (auto simp: trim_row_def Let_def split: if_splits option.splits dest!: invalidate_flag)

lemma ex_less_Suc_shift: "(\<exists>j<Suc d. P j) = (P 0 \<or> (\<exists>j<d. P (Suc j)))"
  by (metis less_Suc_eq_0_disj)

lemma trim_loop_to_remove:
  "trim_loop mode opts index hashes los his mits = Inr ((ls, hs, ms), rs, rem) \<Longrightarrow>
     (k \<in> set rem) =
       (index \<le> k \<and> k - index < min (length los) (length his) \<and>
        (\<not> valid (ls ! (k - index)) \<or>
         destroy_identical opts \<and>
           (mini_hash (los ! (k - index)) (his ! (k - index)) \<in> hashes \<or>
            (\<exists>j<k - index. mini_hash (los ! j) (his ! j)
                             = mini_hash (los ! (k - index)) (his ! (k - index))))))"
proof (induction los arbitrary: his mits index hashes ls hs ms rs rem)
  case Nil
  then show ?case by (simp add: trim_loop_end)
next
  case (Cons lo los)
  show ?case
  proof (cases his)
    case Nil
    with Cons.prems show ?thesis by (simp add: trim_loop_end)
  next
    case hs: (Cons hi his')
    from Cons.prems[unfolded hs] show ?thesis
    proof (cases rule: trim_loop_Cons_Inr)
      case (1 lo1 hi1 rs1 lo2 hi2 mopt2 invalid ls' hs' ms' rs' rem')
      let ?h0 = "mini_hash lo hi"
      have h0: "mini_hash lo2 hi2 = ?h0"
        using thresholds_data[OF 1(1)] trim_row_Inr_shape[OF 1(2)] by (simp add: mini_hash_def)
      have inv: "invalid = (\<not> valid lo2)" using trim_row_flag[OF 1(2)] by simp
      note IH = Cons.IH[OF 1(3), unfolded h0]
      consider "k < index" | "k = index" | d where "k = Suc index + d"
        by (metis add_Suc_shift less_iff_Suc_add linorder_neqE_nat add_Suc)
      then show ?thesis
      proof cases
        case 1
        then show ?thesis using IH \<open>rem = _\<close> by auto
      next
        case 2
        then show ?thesis using IH \<open>rem = _\<close> \<open>ls = _\<close> hs h0 inv by auto
      next
        case 3
        then have kd: "k - index = Suc d" "k - Suc index = d" "index \<le> k" "Suc index \<le> k" "k \<noteq> index"
          by auto
        have "(k \<in> set rem) = (k \<in> set rem')"
          using \<open>rem = _\<close> kd by auto
        also have "\<dots> = (d < min (length los) (length his') \<and>
            (\<not> valid (ls' ! d) \<or>
             destroy_identical opts \<and>
               (mini_hash (los ! d) (his' ! d) \<in> (if destroy_identical opts \<and> ?h0 \<notin> hashes
                     then insert ?h0 hashes else hashes) \<or>
                (\<exists>j<d. mini_hash (los ! j) (his' ! j) = mini_hash (los ! d) (his' ! d)))))"
          using IH kd by simp
        also have "\<dots> = (d < min (length los) (length his') \<and>
            (\<not> valid (ls' ! d) \<or>
             destroy_identical opts \<and>
               (mini_hash (los ! d) (his' ! d) \<in> hashes \<or>
                (\<exists>j<Suc d. mini_hash ((lo # los) ! j) ((hi # his') ! j) = mini_hash (los ! d) (his' ! d)))))"
          unfolding ex_less_Suc_shift by auto
        finally show ?thesis using kd hs \<open>ls = _\<close> by simp
      qed
    qed
  qed
qed

section \<open>The whole pass\<close>

lemma getters_valid_update [simp]:
  "simPct (p\<lparr>valid := v\<rparr>) = simPct p" "idPct (p\<lparr>valid := v\<rparr>) = idPct p"
  "cvPct (p\<lparr>valid := v\<rparr>) = cvPct p" "eValue (p\<lparr>valid := v\<rparr>) = eValue p"
  by (simp_all add: simPct_def idPct_def cvPct_def eValue_def length_h_def)

lemma check_logged_definitive [simp]:
  "check_logged (opts\<lparr>definitive := d\<rparr>) p = check_logged opts p"
  by (simp add: check_logged_def cong del: if_weak_cong)

lemma thresholds_definitive [simp]:
  "thresholds (opts\<lparr>definitive := d\<rparr>) lo hi = thresholds opts lo hi"
  by (simp add: thresholds_def check_plain_def)

lemma filter_mitab_definitive [simp]:
  "filter_mitab mode (opts\<lparr>definitive := d\<rparr>) ms = filter_mitab mode opts ms"
  by (simp add: filter_mitab_def)

lemma trim_row_definitive [simp]:
  "trim_row mode (opts\<lparr>definitive := d\<rparr>) r = trim_row mode opts r"
  by (cases r) (auto simp: trim_row_def Let_def split: option.splits)

lemma trim_loop_definitive:
  "trim_loop mode (opts\<lparr>definitive := d\<rparr>) index hashes los his mits
     = trim_loop mode opts index hashes los his mits"
proof (induction los arbitrary: his mits index hashes)
  case Nil
  then show ?case by (simp add: trim_loop_end)
next
  case (Cons lo los)
  show ?case
  proof (cases his)
    case Nil
    then show ?thesis by (simp add: trim_loop_end)
  next
    case hs: (Cons hi his')
    show ?thesis unfolding hs
      by (simp add: Cons.IH Let_def cong: sum.case_cong prod.case_cong)
  qed
qed

lemma trim_pass_definitive:
  "trim_pass mode (opts\<lparr>definitive := d\<rparr>) s = trim_pass mode opts s"
  by (simp add: trim_pass_def trim_loop_definitive)

lemma trim_pass_to_remove:
  assumes "trim_pass mode opts s = Inr (s1, rs, rem)"
  shows "(i \<in> set rem) =
           (i < min (length (lowQueryParam s)) (length (highQueryParam s)) \<and>
            (\<not> valid (lowQueryParam s1 ! i) \<or>
             destroy_identical opts \<and>
               (\<exists>j<i. mini_hash (lowQueryParam s ! j) (highQueryParam s ! j)
                        = mini_hash (lowQueryParam s ! i) (highQueryParam s ! i))))"
proof -
  from assms obtain ls hs ms where
    l: "trim_loop mode opts 0 {} (lowQueryParam s) (highQueryParam s) (mitabCouples s)
          = Inr ((ls, hs, ms), rs, rem)"
    and s1: "lowQueryParam s1 = ls"
    by (auto simp: trim_pass_def with_rows_def split: sum.splits prod.splits)
  from trim_loop_to_remove[OF l, of i] s1 show ?thesis by simp
qed

lemma trim_pass_reasons:
  assumes "trim_pass mode opts s = Inr (s1, rs, rem)" "logged opts"
  shows "rs = map (\<lambda>(lo, hi). (reason_of opts lo, reason_of opts hi))
                (zip (lowQueryParam s) (highQueryParam s))"
proof -
  from assms obtain ls hs ms where
    l: "trim_loop mode opts 0 {} (lowQueryParam s) (highQueryParam s) (mitabCouples s)
          = Inr ((ls, hs, ms), rs, rem)"
    by (auto simp: trim_pass_def with_rows_def split: sum.splits prod.splits)
  from trim_loop_reasons[OF l] assms(2) show ?thesis by (simp add: reason_of_def)
qed

lemma reason_of_fields:
  "similarity (reason_of opts p) =
     (if js_lt (simPct p) (opt_simPct opts)
      then Reason (simPct p) '', expected higher than '' (opt_simPct opts) else No_reason)"
  "identity (reason_of opts p) =
     (if js_lt (idPct p) (opt_idPct opts)
      then Reason (idPct p) '', expected higher than '' (opt_idPct opts) else No_reason)"
  "coverage (reason_of opts p) =
     (if js_lt (cvPct p) (opt_cvPct opts)
      then Reason (cvPct p) '', expected higher than '' (opt_cvPct opts) else No_reason)"
  "e_value (reason_of opts p) =
     (if js_gt (eValue p) (opt_eValue opts)
      then Reason (eValue p) '', expected lower than '' (opt_eValue opts) else No_reason)"
  by (simp_all add: reason_of_def check_logged_def Let_def no_reason_def)

lemma reason_of_passing:
  "\<not> js_lt (simPct p) (opt_simPct opts) \<Longrightarrow> \<not> js_lt (idPct p) (opt_idPct opts) \<Longrightarrow>
   \<not> js_lt (cvPct p) (opt_cvPct opts) \<Longrightarrow> \<not> js_gt (eValue p) (opt_eValue opts) \<Longrightarrow>
     reason_of opts p = no_reason"
  by (simp add: reason_of_def check_logged_def Let_def no_reason_def)

lemma trim_pass_same_lengths:
  "(trim_pass mode opts s = Inl s1 \<longrightarrow> same_lengths s1 s) \<and>
   (trim_pass mode opts s = Inr (s1, rs, rem) \<longrightarrow> same_lengths s1 s)"
  by (auto simp: trim_pass_def with_rows_def same_lengths_def
      split: sum.splits prod.splits dest!: trim_loop_length_Inl trim_loop_length_Inr)

lemma trim_pass_returns:
  "min (length (lowQueryParam s)) (length (highQueryParam s)) \<le> length (mitabCouples s) \<Longrightarrow>
     \<exists>s1 rs rem. trim_pass mode opts s = Inr (s1, rs, rem)"
  using trim_loop_returns[of "lowQueryParam s" "highQueryParam s" "mitabCouples s" mode opts 0 "{}"]
  by (auto simp: trim_pass_def split: prod.splits)

lemma trim_returns:
  "min (length (lowQueryParam s)) (length (highQueryParam s)) \<le> length (mitabCouples s) \<Longrightarrow>
     \<exists>s' rs. trim mode opts s = Inr (s', rs)"
  using trim_pass_returns[of s mode opts] by (auto simp: trim_def)

lemma parallel_compact:
  "parallel s \<Longrightarrow> parallel (compact rem s)"
  by (simp add: parallel_def compact_def filter_index_nths length_nths)

section \<open>The example rows, evaluated\<close>

lemmas js_eval =
  length_h_def simPct_def idPct_def cvPct_def eValue_def elem_at_def parseInt_def Number_def
  StringToNumber_def parse_decimal_def parse_exponent_def parse_radix_def has_prefix_def
  has_sign_def has_minus_def ToString_arg_def digits_val_def is_digit_def digit_of_def is_ws_def
  js_add_def js_sub_def js_mul_def js_div_def js_neg_def signed_fin_def signed_inf_def
  is_neg_def is_inf_def is_zero_def num_val_def js_lt_def js_gt_def js_le_def js_ge_def
  ord_key_def key_less_def

lemma rowA_values:
  "data p = rowA \<Longrightarrow> simPct p = Fin 80"
  "data p = rowA \<Longrightarrow> idPct p = Fin 90"
  "data p = rowA \<Longrightarrow> cvPct p = Fin 50"
  "data p = rowA \<Longrightarrow> eValue p = Fin (1 / 100)"
  by (simp_all add: rowA_def js_eval Let_def)

lemma rowB_values:
  "data p = rowB \<Longrightarrow> simPct p = Fin 60"
  "data p = rowB \<Longrightarrow> idPct p = Fin 90"
  "data p = rowB \<Longrightarrow> cvPct p = Fin 50"
  "data p = rowB \<Longrightarrow> eValue p = Fin (1 / 100)"
  by (simp_all add: rowB_def js_eval Let_def)

lemma rowN_values:
  "data p = rowN \<Longrightarrow> simPct p = NaN"
  "data p = rowN \<Longrightarrow> idPct p = Fin 90"
  "data p = rowN \<Longrightarrow> cvPct p = Fin 50"
  "data p = rowN \<Longrightarrow> eValue p = Fin (1 / 100)"
  by (simp_all add: rowN_def js_eval Let_def)

lemma rowX_values:
  "data p = rowX \<Longrightarrow> simPct p = NaN"
  "data p = rowX \<Longrightarrow> idPct p = NaN"
  "data p = rowX \<Longrightarrow> cvPct p = NaN"
  "data p = rowX \<Longrightarrow> eValue p = NaN"
  by (simp_all add: rowX_def js_eval Let_def)

lemma row_hashes: "concat rowA \<noteq> concat rowB" "concat rowB \<noteq> concat rowA"
  by (simp_all add: rowA_def rowB_def)

lemmas cmp_eval = js_lt_def js_gt_def js_le_def js_ge_def ord_key_def key_less_def

lemmas trim_unfold =
  trim_def trim_pass_def with_rows_def compact_def thresholds_def check_logged_def
  check_plain_def trim_row_def invalidate_def filter_mitab_def taxon_match_def
  set_all_valid_def mini_hash_def group_at_def group_put_def no_reason_def
  default_options_def from_obj_def new_HoParameterSet_def new_HoParameter_def add_def
  remove_def Let_def

lemmas rows_eval = rowA_values rowB_values rowN_values rowX_values row_hashes

section \<open>Where the two threshold branches agree\<close>

lemma js_ge_iff_not_lt: "x \<noteq> NaN \<Longrightarrow> y \<noteq> NaN \<Longrightarrow> js_ge x y = (\<not> js_lt x y)"
  by (simp add: js_ge_def js_lt_def)

lemma js_le_iff_not_gt: "x \<noteq> NaN \<Longrightarrow> y \<noteq> NaN \<Longrightarrow> js_le x y = (\<not> js_gt x y)"
  by (simp add: js_le_def js_gt_def js_lt_def)

lemma check_logged_valid:
  "valid (fst (check_logged opts p)) =
     (\<not> js_lt (simPct p) (opt_simPct opts) \<and> \<not> js_lt (idPct p) (opt_idPct opts)
      \<and> \<not> js_lt (cvPct p) (opt_cvPct opts) \<and> \<not> js_gt (eValue p) (opt_eValue opts))"
  by (simp add: check_logged_def Let_def)

lemma branches_agree_without_NaN:
  "no_NaN opts p \<Longrightarrow> fst (check_logged opts p) = check_plain opts p"
  by (rule HoParameter.equality)
    (simp_all add: check_logged_valid check_logged_data check_plain_def no_NaN_def
      js_ge_iff_not_lt js_le_iff_not_gt)

lemma check_plain_NaN:
  "simPct p = NaN \<or> idPct p = NaN \<or> cvPct p = NaN \<or> eValue p = NaN
     \<Longrightarrow> \<not> valid (check_plain opts p)"
  by (auto simp: check_plain_def js_ge_def js_le_def)

lemma check_logged_NaN:
  "simPct p = NaN \<Longrightarrow> idPct p = NaN \<Longrightarrow> cvPct p = NaN \<Longrightarrow> eValue p = NaN
     \<Longrightarrow> valid (fst (check_logged opts p)) \<and> snd (check_logged opts p) = no_reason"
  by (simp add: check_logged_def Let_def js_lt_def js_gt_def)

lemma check_logged_logged [simp]:
  "check_logged (opts\<lparr>logged := b\<rparr>) p = check_logged opts p"
  by (simp add: check_logged_def cong del: if_weak_cong)

lemma check_plain_logged [simp]:
  "check_plain (opts\<lparr>logged := b\<rparr>) p = check_plain opts p"
  by (simp add: check_plain_def)

lemma filter_mitab_logged [simp]:
  "filter_mitab mode (opts\<lparr>logged := b\<rparr>) ms = filter_mitab mode opts ms"
  by (simp add: filter_mitab_def)

lemma trim_row_logged [simp]:
  "trim_row mode (opts\<lparr>logged := b\<rparr>) r = trim_row mode opts r"
  by (cases r) (auto simp: trim_row_def Let_def split: option.splits)

lemma thresholds_rows_agree:
  "no_NaN opts lo \<Longrightarrow> no_NaN opts hi \<Longrightarrow>
     thresholds (opts\<lparr>logged := True\<rparr>) lo hi
       = (check_plain opts lo, check_plain opts hi, [(reason_of opts lo, reason_of opts hi)])
     \<and> thresholds (opts\<lparr>logged := False\<rparr>) lo hi = (check_plain opts lo, check_plain opts hi, [])"
  by (simp add: thresholds_def branches_agree_without_NaN reason_of_def)

lemma forget_reasons_step:
  "forget_reasons
     (case row of
        Inl (lo2, hi2, mopt2) \<Rightarrow> Inl (lo2 # los, hi2 # his, group_put mopt2 (tl mits))
      | Inr ((lo2, hi2, mopt2), invalid) \<Rightarrow>
          (case rest lo2 hi2 of
             Inl (ls, hs, ms) \<Rightarrow> Inl (lo2 # ls, hi2 # hs, group_put mopt2 ms)
           | Inr ((ls, hs, ms), reasons, to_remove) \<Rightarrow>
               Inr ((lo2 # ls, hi2 # hs, group_put mopt2 ms), rs @ reasons,
                    marks lo2 hi2 invalid @ to_remove)))
   = (case row of
        Inl (lo2, hi2, mopt2) \<Rightarrow> Inl (lo2 # los, hi2 # his, group_put mopt2 (tl mits))
      | Inr ((lo2, hi2, mopt2), invalid) \<Rightarrow>
          (case forget_reasons (rest lo2 hi2) of
             Inl (ls, hs, ms) \<Rightarrow> Inl (lo2 # ls, hi2 # hs, group_put mopt2 ms)
           | Inr ((ls, hs, ms), to_remove) \<Rightarrow>
               Inr ((lo2 # ls, hi2 # hs, group_put mopt2 ms), marks lo2 hi2 invalid @ to_remove)))"
  by (auto simp: forget_reasons_def split: sum.splits prod.splits)

lemma trim_loop_forget:
  "forget_reasons (trim_loop mode opts index hashes (lo # los) (hi # his) mits) =
     (case thresholds opts lo hi of (lo1, hi1, rs) \<Rightarrow>
      case trim_row mode opts (lo1, hi1, group_at mits) of
        Inl (lo2, hi2, mopt2) \<Rightarrow> Inl (lo2 # los, hi2 # his, group_put mopt2 (tl mits))
      | Inr ((lo2, hi2, mopt2), invalid) \<Rightarrow>
          (case forget_reasons
                  (trim_loop mode opts (Suc index)
                     (if destroy_identical opts \<and> mini_hash lo2 hi2 \<notin> hashes
                      then insert (mini_hash lo2 hi2) hashes else hashes) los his (tl mits)) of
             Inl (ls, hs, ms) \<Rightarrow> Inl (lo2 # ls, hi2 # hs, group_put mopt2 ms)
           | Inr ((ls, hs, ms), to_remove) \<Rightarrow>
               Inr ((lo2 # ls, hi2 # hs, group_put mopt2 ms),
                    ((if invalid then [index] else [])
                       @ (if destroy_identical opts \<and> mini_hash lo2 hi2 \<in> hashes then [index] else []))
                      @ to_remove)))"
  by (auto simp: forget_reasons_def Let_def split: sum.splits prod.splits)

lemma trim_loop_logged_agree:
  "list_all (no_NaN opts) los \<Longrightarrow> list_all (no_NaN opts) his \<Longrightarrow>
     forget_reasons (trim_loop mode (opts\<lparr>logged := True\<rparr>) index hashes los his mits)
       = forget_reasons (trim_loop mode (opts\<lparr>logged := False\<rparr>) index hashes los his mits)"
proof (induction los arbitrary: his mits index hashes)
  case Nil
  then show ?case by (simp add: trim_loop_end)
next
  case (Cons lo los)
  show ?case
  proof (cases his)
    case Nil
    then show ?thesis by (simp add: trim_loop_end)
  next
    case hs: (Cons hi his')
    with Cons.prems have n: "no_NaN opts lo" "no_NaN opts hi"
      and r: "list_all (no_NaN opts) los" "list_all (no_NaN opts) his'"
      by simp_all
    note IH = Cons.IH[OF r]
    show ?thesis
      unfolding hs trim_loop_forget
      by (simp add: thresholds_rows_agree[OF n] IH cong: sum.case_cong prod.case_cong)
  qed
qed

lemma trim_logged_agree_without_NaN:
  assumes "list_all (no_NaN opts) (lowQueryParam s)" "list_all (no_NaN opts) (highQueryParam s)"
  shows "map_sum snd fst (trim mode (opts\<lparr>logged := True\<rparr>) s)
           = map_sum snd fst (trim mode (opts\<lparr>logged := False\<rparr>) s)"
proof -
  from trim_loop_logged_agree[OF assms, of mode 0 "{}" "mitabCouples s"]
  show ?thesis
    by (auto simp: trim_def trim_pass_def forget_reasons_def split: sum.splits prod.splits)
qed

section \<open>Calls that return\<close>

lemma trim_row_no_filter:
  "exp_methods opts = None \<Longrightarrow> taxons opts = None \<Longrightarrow> \<exists>q. trim_row mode opts r = Inr q"
  by (cases r) (simp add: trim_row_def)

lemma trim_loop_returns_no_filter:
  "exp_methods opts = None \<Longrightarrow> taxons opts = None \<Longrightarrow>
     \<exists>q. trim_loop mode opts index hashes los his mits = Inr q"
proof (induction los arbitrary: his mits index hashes)
  case Nil
  then show ?case by (simp add: trim_loop_end)
next
  case (Cons lo los)
  show ?case
  proof (cases his)
    case Nil
    then show ?thesis by (simp add: trim_loop_end)
  next
    case hs: (Cons hi his')
    obtain lo1 hi1 rs1 where th: "thresholds opts lo hi = (lo1, hi1, rs1)"
      by (cases "thresholds opts lo hi") auto
    obtain lo2 hi2 mopt2 invalid where
      row: "trim_row mode opts (lo1, hi1, group_at mits) = Inr ((lo2, hi2, mopt2), invalid)"
      using trim_row_no_filter[OF Cons.prems, of mode "(lo1, hi1, group_at mits)"] by auto
    from Cons.IH[OF Cons.prems] obtain q where
      "trim_loop mode opts (Suc index)
         (if destroy_identical opts \<and> mini_hash lo2 hi2 \<notin> hashes
          then insert (mini_hash lo2 hi2) hashes else hashes) los his' (tl mits) = Inr q"
      by blast
    with th row hs show ?thesis
      by (cases q) (auto simp: Let_def)
  qed
qed

lemma trim_returns_without_filter:
  "exp_methods opts = None \<Longrightarrow> taxons opts = None \<Longrightarrow> \<exists>s' rs. trim mode opts s = Inr (s', rs)"
  using trim_loop_returns_no_filter[of opts mode 0 "{}" "lowQueryParam s" "highQueryParam s" "mitabCouples s"]
  by (auto simp: trim_def trim_pass_def split: prod.splits)

lemma mini_hash_not_inherited: "mini_hash lo hi \<notin> set object_prototype_keys"
proof -
  have "CHR ''~'' \<in> set (mini_hash lo hi)" by (simp add: mini_hash_def)
  moreover have "\<forall>k \<in> set object_prototype_keys. CHR ''~'' \<notin> set k"
    by (simp add: object_prototype_keys_def)
  ultimately show ?thesis by blast
qed

section \<open>Exceptions and the parallel sequences\<close>

text \<open>
  Claim C1: \<^verbatim>\<open>trim\<close> never throws, also on a set rebuilt by \<^verbatim>\<open>from\<close>. The code breaks
  it. \<^verbatim>\<open>from\<close> restores the two parameter arrays and leaves \<^verbatim>\<open>mitabCouples\<close> empty, so
  \<^verbatim>\<open>this.mitabCouples[index]\<close> is \<^verbatim>\<open>undefined\<close>. Lines 189, 200 and 223 test for that;
  line 218, just after the guarded block, reads \<^verbatim>\<open>mitab_lines_of.filter\<close> unguarded.
  With a taxon filter and a row that passes the thresholds the call ends in a
  \<^verbatim>\<open>TypeError\<close>. The call does return when no filter is given
  (\<open>trim_returns_without_filter\<close>) and when every iterated index has an interaction
  group (\<open>trim_returns\<close>).
\<close>

theorem trim_after_from_throws:
  "trim TAXON_EVERY (default_options\<lparr>taxons := Some {''9606''}\<rparr>)
     (from_obj [\<lparr>data = rowA, valid = True\<rparr>] [\<lparr>data = rowB, valid = True\<rparr>] True)
   = Inl (TypeError,
       \<lparr>lowQueryParam = [\<lparr>data = rowA, valid = True\<rparr>],
        highQueryParam = [\<lparr>data = rowB, valid = True\<rparr>],
        mitabCouples = [], visible = True\<rparr>)"
  by (simp add: trim_unfold cmp_eval rows_eval)

text \<open>
  Claim C2, amended: a new set has three sequences of one length, and \<^verbatim>\<open>add\<close> and
  \<^verbatim>\<open>trim\<close> (with or without \<^verbatim>\<open>definitive\<close>) keep it so; on such a set \<^verbatim>\<open>trim\<close> returns.
  \<^verbatim>\<open>remove\<close> empties the two parameter arrays and clears \<^verbatim>\<open>visible\<close>. \<^verbatim>\<open>from\<close> restores
  the two parameter arrays row by row and \<^verbatim>\<open>visible\<close>, with no interaction data.
\<close>

theorem parallel_preserved:
  "parallel new_HoParameterSet
   \<and> (parallel s \<longrightarrow> parallel (add x y s))
   \<and> (parallel s \<longrightarrow> (\<exists>s' rs. trim mode opts s = Inr (s', rs) \<and> parallel s'))
   \<and> lowQueryParam (remove s) = [] \<and> highQueryParam (remove s) = [] \<and> \<not> visible (remove s)
   \<and> lowQueryParam (from_obj low high vis) = low
   \<and> highQueryParam (from_obj low high vis) = high
   \<and> mitabCouples (from_obj low high vis) = []
   \<and> visible (from_obj low high vis) = vis"
proof -
  have "\<exists>s' rs. trim mode opts s = Inr (s', rs) \<and> parallel s'" if p: "parallel s"
  proof -
    from p have "min (length (lowQueryParam s)) (length (highQueryParam s)) \<le> length (mitabCouples s)"
      by (simp add: parallel_def)
    from trim_pass_returns[OF this] obtain s1 rs rem where
      tp: "trim_pass mode opts s = Inr (s1, rs, rem)" by blast
    with trim_pass_same_lengths[of mode opts s s1 rs rem] p have "parallel s1"
      by (simp add: same_lengths_def parallel_def)
    with tp show ?thesis by (auto simp: trim_def parallel_compact)
  qed
  moreover have "map (\<lambda>l. (new_HoParameter (data l))\<lparr>valid := valid l\<rparr>) rows = rows" for rows
    by (induction rows) (simp_all add: new_HoParameter_def)
  ultimately show ?thesis
    by (simp add: parallel_def new_HoParameterSet_def add_def remove_def from_obj_def)
qed

text \<open>C2 on the sets built by one and by two calls of \<^verbatim>\<open>add\<close>.\<close>

theorem parallel_preserved_witness:
  "parallel (add [''a''] [''b''] new_HoParameterSet)
   \<and> parallel (add [''c''] [''d''] (add [''a''] [''b''] new_HoParameterSet))
   \<and> (\<exists>s' rs. trim TAXON_EVERY default_options (add [''a''] [''b''] new_HoParameterSet) = Inr (s', rs)
               \<and> parallel s')"
  using parallel_preserved[of "add [''a''] [''b''] new_HoParameterSet" "[''c'']" "[''d'']"
      TAXON_EVERY default_options]
    parallel_preserved[of new_HoParameterSet "[''a'']" "[''b'']"]
  by simp

text \<open>
  As C2 is written it fails for \<^verbatim>\<open>remove\<close>, which leaves \<^verbatim>\<open>mitabCouples\<close> as it was, and
  for \<^verbatim>\<open>from\<close>, which leaves it empty.
\<close>

theorem parallel_broken_by_remove_and_from:
  "\<not> parallel (remove (add [''a''] [''b''] new_HoParameterSet))
   \<and> \<not> parallel (from_obj [\<lparr>data = [''a''], valid = True\<rparr>] [\<lparr>data = [''b''], valid = True\<rparr>] True)"
  by (simp add: parallel_def remove_def add_def from_obj_def new_HoParameterSet_def)

section \<open>The two threshold branches\<close>

text \<open>
  Claim C3: with the same thresholds, \<^verbatim>\<open>trim\<close> leaves the same \<^verbatim>\<open>valid\<close> flags with
  \<^verbatim>\<open>logged\<close> false as with \<^verbatim>\<open>logged\<close> true. The code breaks it where a derived value is
  \<open>NaN\<close>. The logged branch sets the flag and clears it when \<^verbatim>\<open>value < threshold\<close>
  holds; the other branch assigns \<^verbatim>\<open>value >= threshold && ...\<close>. Both comparisons are
  false on \<open>NaN\<close>, so the first branch keeps the row and the second invalidates it.
  Here the similarity count of the low row is \<^verbatim>\<open>n/a\<close>. Where no derived value and no
  threshold is \<open>NaN\<close> the two calls leave the same set
  (\<open>trim_logged_agree_without_NaN\<close>).
\<close>

theorem trim_logged_flags_differ_on_NaN:
  "trim TAXON_EVERY (default_options\<lparr>logged := True\<rparr>) (add rowN rowA new_HoParameterSet)
   = Inr (\<lparr>lowQueryParam = [\<lparr>data = rowN, valid = True\<rparr>],
           highQueryParam = [\<lparr>data = rowA, valid = True\<rparr>],
           mitabCouples = [[]], visible = True\<rparr>,
          [(no_reason, no_reason)])
   \<and> trim TAXON_EVERY (default_options\<lparr>logged := False\<rparr>) (add rowN rowA new_HoParameterSet)
   = Inr (\<lparr>lowQueryParam = [\<lparr>data = rowN, valid = False\<rparr>],
           highQueryParam = [\<lparr>data = rowA, valid = False\<rparr>],
           mitabCouples = [[]], visible = True\<rparr>,
          [])"
  by (simp add: trim_unfold cmp_eval rows_eval)

text \<open>
  Claim C4: a row with a \<open>NaN\<close> derived value fails the threshold and ends invalid in
  both branches. The code breaks it in the logged branch, by the same comparison as
  for C3: all four derived values of the row below are \<open>NaN\<close>, every threshold is set,
  and the logged call leaves both sides valid and reports no failing criterion. The
  other branch does invalidate such a row (\<open>check_plain_NaN\<close>).
\<close>

theorem trim_logged_keeps_NaN_row_valid:
  "simPct (new_HoParameter rowX) = NaN \<and> idPct (new_HoParameter rowX) = NaN
   \<and> cvPct (new_HoParameter rowX) = NaN \<and> eValue (new_HoParameter rowX) = NaN
   \<and> trim TAXON_EVERY
        (default_options\<lparr>opt_simPct := Fin 50, opt_idPct := Fin 50, opt_cvPct := Fin 50,
                          opt_eValue := Fin (1 / 1000), logged := True\<rparr>)
        (add rowX rowX new_HoParameterSet)
      = Inr (\<lparr>lowQueryParam = [\<lparr>data = rowX, valid = True\<rparr>],
              highQueryParam = [\<lparr>data = rowX, valid = True\<rparr>],
              mitabCouples = [[]], visible = True\<rparr>,
             [(no_reason, no_reason)])"
  by (simp add: trim_unfold cmp_eval rows_eval)

section \<open>Compaction and the reason list\<close>

text \<open>
  Claim C9: \<^verbatim>\<open>trim\<close> without \<^verbatim>\<open>definitive\<close> leaves the three lengths as they were (also
  when it throws); with \<^verbatim>\<open>definitive\<close> it removes from the three sequences exactly the
  indices of \<^verbatim>\<open>to_remove\<close>, and the loop puts an index there exactly when the row ended
  invalid or, under \<^verbatim>\<open>destroy_identical\<close>, an earlier row has the same key. The call
  returns whenever every iterated position has an interaction group.
\<close>

theorem trim_definitive_removes_marked:
  "(\<forall>e s'. trim mode opts s = Inl (e, s') \<longrightarrow> same_lengths s' s)
   \<and> (\<forall>s' rs. trim mode opts s = Inr (s', rs) \<longrightarrow>
        (\<not> definitive opts \<longrightarrow> same_lengths s' s)
        \<and> (definitive opts \<longrightarrow>
             (\<exists>s1 to_remove.
                trim_pass mode opts s = Inr (s1, rs, to_remove)
                \<and> same_lengths s1 s
                \<and> lowQueryParam s' = nths (lowQueryParam s1) {i. i \<notin> set to_remove}
                \<and> highQueryParam s' = nths (highQueryParam s1) {i. i \<notin> set to_remove}
                \<and> mitabCouples s' = nths (mitabCouples s1) {i. i \<notin> set to_remove}
                \<and> (\<forall>i. (i \<in> set to_remove) =
                     (i < min (length (lowQueryParam s)) (length (highQueryParam s)) \<and>
                      (\<not> valid (lowQueryParam s1 ! i) \<or>
                       destroy_identical opts \<and>
                         (\<exists>j<i. mini_hash (lowQueryParam s ! j) (highQueryParam s ! j)
                                  = mini_hash (lowQueryParam s ! i) (highQueryParam s ! i))))))))
   \<and> (min (length (lowQueryParam s)) (length (highQueryParam s)) \<le> length (mitabCouples s)
        \<longrightarrow> (\<exists>s' rs. trim mode opts s = Inr (s', rs)))"
proof (intro conjI allI impI)
  fix e s' assume "trim mode opts s = Inl (e, s')"
  then have "trim_pass mode opts s = Inl s'"
    by (auto simp: trim_def split: sum.splits prod.splits)
  with trim_pass_same_lengths[of mode opts s s'] show "same_lengths s' s" by simp
next
  fix s' rs assume t: "trim mode opts s = Inr (s', rs)" and nd: "\<not> definitive opts"
  then obtain rem where "trim_pass mode opts s = Inr (s', rs, rem)"
    by (auto simp: trim_def split: sum.splits prod.splits)
  with trim_pass_same_lengths[of mode opts s s' rs rem] show "same_lengths s' s" by simp
next
  fix s' rs assume t: "trim mode opts s = Inr (s', rs)" and d: "definitive opts"
  then obtain s1 rem where tp: "trim_pass mode opts s = Inr (s1, rs, rem)"
    and s': "s' = compact rem s1"
    by (auto simp: trim_def split: sum.splits prod.splits)
  from trim_pass_same_lengths[of mode opts s s1 rs rem] tp have sl: "same_lengths s1 s" by simp
  show "\<exists>s1 to_remove.
                trim_pass mode opts s = Inr (s1, rs, to_remove)
                \<and> same_lengths s1 s
                \<and> lowQueryParam s' = nths (lowQueryParam s1) {i. i \<notin> set to_remove}
                \<and> highQueryParam s' = nths (highQueryParam s1) {i. i \<notin> set to_remove}
                \<and> mitabCouples s' = nths (mitabCouples s1) {i. i \<notin> set to_remove}
                \<and> (\<forall>i. (i \<in> set to_remove) =
                     (i < min (length (lowQueryParam s)) (length (highQueryParam s)) \<and>
                      (\<not> valid (lowQueryParam s1 ! i) \<or>
                       destroy_identical opts \<and>
                         (\<exists>j<i. mini_hash (lowQueryParam s ! j) (highQueryParam s ! j)
                                  = mini_hash (lowQueryParam s ! i) (highQueryParam s ! i)))))"
    apply (rule exI[of _ s1], rule exI[of _ rem])
    using tp sl trim_pass_to_remove[OF tp] by (simp add: s' compact_def filter_index_nths)
next
  assume "min (length (lowQueryParam s)) (length (highQueryParam s)) \<le> length (mitabCouples s)"
  then show "\<exists>s' rs. trim mode opts s = Inr (s', rs)" by (rule trim_returns)
qed

text \<open>
  C9 on three rows: the second fails the similarity threshold, the third repeats the
  first. The loop marks the indices 1 and 2, and the call keeps the row of index 0.
\<close>

theorem trim_definitive_removes_marked_witness:
  "trim_pass TAXON_EVERY
     (default_options\<lparr>opt_simPct := Fin 70, definitive := True, destroy_identical := True\<rparr>)
     (add rowA rowA (add rowB rowA (add rowA rowA new_HoParameterSet)))
   = Inr (\<lparr>lowQueryParam =
             [\<lparr>data = rowA, valid = True\<rparr>, \<lparr>data = rowB, valid = False\<rparr>,
              \<lparr>data = rowA, valid = True\<rparr>],
           highQueryParam =
             [\<lparr>data = rowA, valid = True\<rparr>, \<lparr>data = rowA, valid = False\<rparr>,
              \<lparr>data = rowA, valid = True\<rparr>],
           mitabCouples = [[], [], []], visible = True\<rparr>, [], [1, 2])
   \<and> trim TAXON_EVERY
     (default_options\<lparr>opt_simPct := Fin 70, definitive := True, destroy_identical := True\<rparr>)
     (add rowA rowA (add rowB rowA (add rowA rowA new_HoParameterSet)))
   = Inr (\<lparr>lowQueryParam = [\<lparr>data = rowA, valid = True\<rparr>],
           highQueryParam = [\<lparr>data = rowA, valid = True\<rparr>],
           mitabCouples = [[]], visible = True\<rparr>, [])
   \<and> [\<lparr>data = rowA, valid = True\<rparr>]
       = nths [\<lparr>data = rowA, valid = True\<rparr>, \<lparr>data = rowB, valid = False\<rparr>,
               \<lparr>data = rowA, valid = True\<rparr>] {i. i \<notin> set [1, 2]}"
proof -
  let ?o = "default_options\<lparr>opt_simPct := Fin 70, definitive := True, destroy_identical := True\<rparr>"
  let ?s = "add rowA rowA (add rowB rowA (add rowA rowA new_HoParameterSet))"
  let ?s1 = "\<lparr>lowQueryParam =
             [\<lparr>data = rowA, valid = True\<rparr>, \<lparr>data = rowB, valid = False\<rparr>,
              \<lparr>data = rowA, valid = True\<rparr>],
           highQueryParam =
             [\<lparr>data = rowA, valid = True\<rparr>, \<lparr>data = rowA, valid = False\<rparr>,
              \<lparr>data = rowA, valid = True\<rparr>],
           mitabCouples = [[], [], []], visible = True\<rparr>"
  let ?res = "\<lparr>lowQueryParam = [\<lparr>data = rowA, valid = True\<rparr>],
           highQueryParam = [\<lparr>data = rowA, valid = True\<rparr>],
           mitabCouples = [[]], visible = True\<rparr>"
  have tp: "trim_pass TAXON_EVERY ?o ?s = Inr (?s1, [], [1, 2])"
    by (simp add: trim_unfold cmp_eval rows_eval)
  have e: "trim TAXON_EVERY ?o ?s = Inr (?res, [])"
    by (simp add: trim_unfold cmp_eval rows_eval)
  have d: "definitive ?o" by (simp add: default_options_def)
  from trim_definitive_removes_marked[of TAXON_EVERY ?o ?s, THEN conjunct2, THEN conjunct1,
      rule_format, OF e, THEN conjunct2, rule_format, OF d]
  obtain s1 to_remove where
    tp': "trim_pass TAXON_EVERY ?o ?s = Inr (s1, [], to_remove)"
    and lo: "lowQueryParam ?res = nths (lowQueryParam s1) {i. i \<notin> set to_remove}"
    by blast
  from tp tp' have "s1 = ?s1" "to_remove = [1, 2]" by (simp_all only: sum.inject prod.inject)
  with lo have "[\<lparr>data = rowA, valid = True\<rparr>] = nths (lowQueryParam ?s1) {i. i \<notin> set [1, 2]}"
    by (simp only: HoParameterSet.simps)
  then have n: "[\<lparr>data = rowA, valid = True\<rparr>]
       = nths [\<lparr>data = rowA, valid = True\<rparr>, \<lparr>data = rowB, valid = False\<rparr>,
               \<lparr>data = rowA, valid = True\<rparr>] {i. i \<notin> set [1, 2]}"
    by (simp only: HoParameterSet.simps)
  from tp e n show ?thesis by (intro conjI)
qed

text \<open>
  Claim C10: with \<^verbatim>\<open>logged\<close>, the list returned has one pair of reason objects per
  iterated position, in index order, whatever \<^verbatim>\<open>definitive\<close> is; a field of a reason is
  \<^verbatim>\<open>false\<close> unless its test failed, so a side that fails no test has all four fields
  \<^verbatim>\<open>false\<close>. The call returns whenever every iterated position has an interaction
  group.
\<close>

theorem trim_logged_reasons:
  "(\<forall>s' rs. logged opts \<longrightarrow> trim mode opts s = Inr (s', rs) \<longrightarrow>
       rs = map (\<lambda>(lo, hi). (reason_of opts lo, reason_of opts hi))
              (zip (lowQueryParam s) (highQueryParam s))
       \<and> length rs = min (length (lowQueryParam s)) (length (highQueryParam s))
       \<and> (\<forall>d. \<exists>s''. trim mode (opts\<lparr>definitive := d\<rparr>) s = Inr (s'', rs)))
   \<and> (\<forall>p. similarity (reason_of opts p) =
              (if js_lt (simPct p) (opt_simPct opts)
               then Reason (simPct p) '', expected higher than '' (opt_simPct opts) else No_reason)
          \<and> identity (reason_of opts p) =
              (if js_lt (idPct p) (opt_idPct opts)
               then Reason (idPct p) '', expected higher than '' (opt_idPct opts) else No_reason)
          \<and> coverage (reason_of opts p) =
              (if js_lt (cvPct p) (opt_cvPct opts)
               then Reason (cvPct p) '', expected higher than '' (opt_cvPct opts) else No_reason)
          \<and> e_value (reason_of opts p) =
              (if js_gt (eValue p) (opt_eValue opts)
               then Reason (eValue p) '', expected lower than '' (opt_eValue opts) else No_reason))
   \<and> (\<forall>p. \<not> js_lt (simPct p) (opt_simPct opts) \<and> \<not> js_lt (idPct p) (opt_idPct opts)
          \<and> \<not> js_lt (cvPct p) (opt_cvPct opts) \<and> \<not> js_gt (eValue p) (opt_eValue opts)
          \<longrightarrow> reason_of opts p = no_reason)
   \<and> (min (length (lowQueryParam s)) (length (highQueryParam s)) \<le> length (mitabCouples s)
        \<longrightarrow> (\<exists>s' rs. trim mode opts s = Inr (s', rs)))"
proof (intro conjI allI impI)
  fix s' rs assume lg: "logged opts" and t: "trim mode opts s = Inr (s', rs)"
  then obtain s1 rem where tp: "trim_pass mode opts s = Inr (s1, rs, rem)"
    by (auto simp: trim_def split: sum.splits prod.splits)
  from trim_pass_reasons[OF tp lg]
  show rs: "rs = map (\<lambda>(lo, hi). (reason_of opts lo, reason_of opts hi))
              (zip (lowQueryParam s) (highQueryParam s))" .
  then show "length rs = min (length (lowQueryParam s)) (length (highQueryParam s))"
    by simp
  fix d
  from tp show "\<exists>s''. trim mode (opts\<lparr>definitive := d\<rparr>) s = Inr (s'', rs)"
    by (simp add: trim_def trim_pass_definitive)
next
  assume "min (length (lowQueryParam s)) (length (highQueryParam s)) \<le> length (mitabCouples s)"
  then show "\<exists>s' rs. trim mode opts s = Inr (s', rs)" by (rule trim_returns)
qed (simp_all add: reason_of_fields reason_of_passing)

text \<open>C10 on two rows, the second failing the similarity threshold on its low side.\<close>

theorem trim_logged_reasons_witness:
  "trim TAXON_EVERY (default_options\<lparr>opt_simPct := Fin 70, logged := True\<rparr>)
     (add rowB rowA (add rowA rowA new_HoParameterSet))
   = Inr (\<lparr>lowQueryParam = [\<lparr>data = rowA, valid = True\<rparr>, \<lparr>data = rowB, valid = False\<rparr>],
           highQueryParam = [\<lparr>data = rowA, valid = True\<rparr>, \<lparr>data = rowA, valid = False\<rparr>],
           mitabCouples = [[], []], visible = True\<rparr>,
          [(no_reason, no_reason),
           (no_reason\<lparr>similarity := Reason (Fin 60) '', expected higher than '' (Fin 70)\<rparr>,
            no_reason)])
   \<and> [(no_reason, no_reason),
       (no_reason\<lparr>similarity := Reason (Fin 60) '', expected higher than '' (Fin 70)\<rparr>,
        no_reason)]
     = map (\<lambda>(lo, hi).
              (reason_of (default_options\<lparr>opt_simPct := Fin 70, logged := True\<rparr>) lo,
               reason_of (default_options\<lparr>opt_simPct := Fin 70, logged := True\<rparr>) hi))
         (zip [new_HoParameter rowA, new_HoParameter rowB] [new_HoParameter rowA, new_HoParameter rowA])"
proof -
  let ?o = "default_options\<lparr>opt_simPct := Fin 70, logged := True\<rparr>"
  let ?s = "add rowB rowA (add rowA rowA new_HoParameterSet)"
  let ?rs = "[(no_reason, no_reason),
           (no_reason\<lparr>similarity := Reason (Fin 60) '', expected higher than '' (Fin 70)\<rparr>,
            no_reason)]"
  let ?res = "\<lparr>lowQueryParam = [\<lparr>data = rowA, valid = True\<rparr>, \<lparr>data = rowB, valid = False\<rparr>],
           highQueryParam = [\<lparr>data = rowA, valid = True\<rparr>, \<lparr>data = rowA, valid = False\<rparr>],
           mitabCouples = [[], []], visible = True\<rparr>"
  have e: "trim TAXON_EVERY ?o ?s = Inr (?res, ?rs)"
    by (simp add: trim_unfold cmp_eval rows_eval)
  have lg: "logged ?o" by (simp add: default_options_def)
  have l: "lowQueryParam ?s = [new_HoParameter rowA, new_HoParameter rowB]"
    "highQueryParam ?s = [new_HoParameter rowA, new_HoParameter rowA]"
    by (simp_all add: add_def new_HoParameterSet_def)
  from trim_logged_reasons[of ?o TAXON_EVERY ?s, THEN conjunct1, rule_format, OF lg e,
      THEN conjunct1]
  have "?rs = map (\<lambda>(lo, hi). (reason_of ?o lo, reason_of ?o hi))
                (zip [new_HoParameter rowA, new_HoParameter rowB]
                     [new_HoParameter rowA, new_HoParameter rowA])"
    by (simp only: l)
  with e show ?thesis by (intro conjI)
qed

section \<open>The snapshot of a set\<close>

lemma upt_0_Suc_map: "[0..<Suc n] = 0 # map Suc [0..<n]"
  by (simp add: upt_conv_Cons map_Suc_upt del: upt_Suc)

lemma toString_low_eq:
  "toString_low mc index es =
     (filter valid es,
      map (\<lambda>i. map mitab_data (filter mitab_valid (mc ! (index + i))))
        (filter (\<lambda>i. valid (es ! i) \<and> index + i < length mc) [0..<length es]))"
proof (induction es arbitrary: index)
  case Nil
  then show ?case by simp
next
  case (Cons e es)
  show ?case
    unfolding toString_low.simps Cons.IH length_Cons upt_0_Suc_map
    by (simp add: filter_map o_def del: upt_Suc)
qed

text \<open>
  Claim C8, amended: the object that \<^verbatim>\<open>toString\<close> serialises has three members, in this
  order: \<^verbatim>\<open>lowQueryParam\<close> and \<^verbatim>\<open>highQueryParam\<close>, the rows \<^verbatim>\<open>{data, valid}\<close> that are
  valid, and \<^verbatim>\<open>mitabCouples\<close>, with for each valid low row whose index has an
  interaction group the valid entries of that group. The \<^verbatim>\<open>visible\<close> flag is not a
  member, and the snapshot does not depend on it.
\<close>

theorem toString_snapshot:
  "toString enc s =
     JObject
       [(''lowQueryParam'', JArray (map HoParameter_json (filter valid (lowQueryParam s)))),
        (''highQueryParam'', JArray (map HoParameter_json (filter valid (highQueryParam s)))),
        (''mitabCouples'',
         JArray (map (\<lambda>i. JArray (map enc (map mitab_data (filter mitab_valid (mitabCouples s ! i)))))
                   (filter (\<lambda>i. valid (lowQueryParam s ! i) \<and> i < length (mitabCouples s))
                      [0..<length (lowQueryParam s)])))]
   \<and> map fst (members (toString enc s)) = [''lowQueryParam'', ''highQueryParam'', ''mitabCouples'']
   \<and> toString enc (s\<lparr>visible := b\<rparr>) = toString enc s"
  by (simp add: toString_def toString_low_eq members_def o_def)

text \<open>C8 on a set of two rows, one valid, whose first group has one valid entry.\<close>

theorem toString_snapshot_witness:
  "toString (JString \<circ> pmid)
     \<lparr>lowQueryParam = [\<lparr>data = rowA, valid = True\<rparr>, \<lparr>data = rowB, valid = False\<rparr>],
      highQueryParam = [\<lparr>data = rowA, valid = True\<rparr>, \<lparr>data = rowA, valid = False\<rparr>],
      mitabCouples =
        [[\<lparr>mitab_data = \<lparr>ids = (''x'', ''y''), pmid = ''p1'', source = ''IntAct'',
                           interactionDetectionMethod = ''m1'', taxid = [''9606''], raw = None, columns = []\<rparr>,
           mitab_valid = True\<rparr>,
          \<lparr>mitab_data = \<lparr>ids = (''x'', ''y''), pmid = ''p2'', source = ''MINT'',
                           interactionDetectionMethod = ''m2'', taxid = [''9606''], raw = None, columns = []\<rparr>,
           mitab_valid = False\<rparr>],
         []],
      visible = False\<rparr>
   = JObject
       [(''lowQueryParam'', JArray [HoParameter_json \<lparr>data = rowA, valid = True\<rparr>]),
        (''highQueryParam'', JArray [HoParameter_json \<lparr>data = rowA, valid = True\<rparr>]),
        (''mitabCouples'', JArray [JArray [JString ''p1'']])]"
  by (subst toString_snapshot[THEN conjunct1]) (simp add: upt_rec)

text \<open>As C8 is written the snapshot holds the \<^verbatim>\<open>visible\<close> flag; it has no such member.\<close>

theorem toString_has_no_visible:
  "''visible'' \<notin> set (map fst (members (toString (JString \<circ> pmid)
      (add rowA rowA new_HoParameterSet))))"
  by (simp add: toString_def members_def add_def new_HoParameterSet_def new_HoParameter_def)

section \<open>The store: update and plus\<close>

lemma same_couple_refl [simp]: "same_couple k k"
  by (simp add: same_couple_def)

lemma same_couple_sym: "same_couple k k' = same_couple k' k"
  by (cases k; cases k') (auto simp: same_couple_def)

lemma same_couple_swap [simp]: "same_couple (a, b) (b, a)"
  by (simp add: same_couple_def)

lemma same_couple_trans: "same_couple k k' \<Longrightarrow> same_couple e k = same_couple e k'"
  by (cases k; cases k'; cases e) (auto simp: same_couple_def)

lemma same_couple_trans2: "same_couple e k \<Longrightarrow> same_couple k k' = same_couple e k'"
  by (cases k; cases k'; cases e) (auto simp: same_couple_def)

lemma rkm_get_same: "same_couple k k' \<Longrightarrow> rkm_get m k = rkm_get m k'"
  by (simp add: rkm_get_def same_couple_trans[of k k'])

lemma rkm_get_set:
  "rkm_get (rkm_set m k v) k' = (if same_couple k k' then Some v else rkm_get m k')"
proof (induction m)
  case Nil
  then show ?case by (simp add: rkm_get_def)
next
  case (Cons e m)
  show ?case
  proof (cases "same_couple (fst e) k")
    case True
    then show ?thesis
      using same_couple_trans2[of "fst e" k k']
      by (auto simp: rkm_get_def)
  next
    case False
    then have "same_couple k k' \<Longrightarrow> \<not> same_couple (fst e) k'"
      using same_couple_trans[of k k' "fst e"] by simp
    with False Cons.IH show ?thesis
      by (auto simp: rkm_get_def)
  qed
qed

lemma getLines_alt:
  "getLines st id1 id2 = (case rkm_get (records st) (id1, id2) of None \<Rightarrow> [] | Some v \<Rightarrow> v)"
  by (simp add: getLines_def hasCouple_def rkm_hasCouple_def split: option.splits)

lemma getLines_sym: "getLines st id1 id2 = getLines st id2 id1"
  by (simp add: getLines_alt rkm_get_same[of "(id1, id2)" "(id2, id1)"])

lemma getLines_same: "same_couple (a, b) (c, d) \<Longrightarrow> getLines st a b = getLines st c d"
  by (simp add: getLines_alt rkm_get_same[of "(a, b)" "(c, d)"])

lemma update_noop:
  "represented equal st psq \<Longrightarrow> update equal psq st = st"
  by (auto simp: update_def represented_def Let_def list_all_iff list_ex_iff split: prod.splits)

lemma update_getLines:
  "getLines (update equal psq st) a b =
     (if same_couple (ids psq) (a, b) \<and> \<not> represented equal st psq
      then getLines st a b @ [psq] else getLines st a b)"
proof (cases "represented equal st psq")
  case True
  then show ?thesis by (simp add: update_noop)
next
  case False
  obtain id1 id2 where i: "ids psq = (id1, id2)" by (cases "ids psq") auto
  from False i have all: "list_all (\<lambda>line. \<not> equal line psq) (getLines st id1 id2)"
    by (simp add: represented_def list_all_iff list_ex_iff)
  show ?thesis
  proof (cases "same_couple (ids psq) (a, b)")
    case True
    with i have "getLines st a b = getLines st id1 id2"
      using getLines_same[of a b id1 id2 st] same_couple_sym[of "(a, b)" "(id1, id2)"] by simp
    with True False i all show ?thesis
      by (simp add: update_def Let_def getLines_alt rkm_get_set)
  next
    case F2: False
    with i all show ?thesis
      by (simp add: update_def Let_def getLines_alt rkm_get_set)
  qed
qed

lemma update_registry [simp]:
  "registredPublications (update equal psq st) = registredPublications st"
  by (simp add: update_def Let_def split: prod.splits)

lemma update_keep_raw [simp]: "keep_raw (update equal psq st) = keep_raw st"
  by (simp add: update_def Let_def split: prod.splits)

text \<open>
  Claim C7: \<^verbatim>\<open>update\<close> with a record that a line of its couple is equal to leaves the
  store, and so the length of that sequence, as it was; otherwise the sequence of the
  couple, read in either order, is the old one with the record appended at its end.
  No other sequence changes, and neither does the registry.
\<close>

theorem update_appends_unless_equal:
  "(list_ex (\<lambda>line. equal line psq) (getLines st (fst (ids psq)) (snd (ids psq)))
      \<longrightarrow> update equal psq st = st)
   \<and> (\<not> list_ex (\<lambda>line. equal line psq) (getLines st (fst (ids psq)) (snd (ids psq)))
      \<longrightarrow> getLines (update equal psq st) (fst (ids psq)) (snd (ids psq))
            = getLines st (fst (ids psq)) (snd (ids psq)) @ [psq]
          \<and> getLines (update equal psq st) (snd (ids psq)) (fst (ids psq))
            = getLines st (fst (ids psq)) (snd (ids psq)) @ [psq])
   \<and> (\<forall>a b. \<not> same_couple (ids psq) (a, b)
         \<longrightarrow> getLines (update equal psq st) a b = getLines st a b)
   \<and> registredPublications (update equal psq st) = registredPublications st"
proof -
  have sc: "same_couple (ids psq) (fst (ids psq), snd (ids psq))"
    "same_couple (ids psq) (snd (ids psq), fst (ids psq))"
    by (simp_all add: same_couple_def)
  show ?thesis
    using update_noop[of equal st psq] getLines_sym[of st "snd (ids psq)" "fst (ids psq)"]
    by (simp add: update_getLines sc represented_def)
qed


lemma checkPsqData_alt:
  "checkPsqData r st =
     (if \<not> known_in (registredPublications st) r
      then (True, st\<lparr>registredPublications :=
                      (registredPublications st)(pmid r \<mapsto> toLowerCase (source r))\<rparr>)
      else (accepted_by (registredPublications st) r, st))"
  by (simp add: checkPsqData_def Let_def known_in_def accepted_by_def)

lemma checkPsqData_records [simp]: "records (snd (checkPsqData r st)) = records st"
  by (simp add: checkPsqData_alt)

lemma represented_records:
  "records st' = records st \<Longrightarrow> represented equal st' r = represented equal st r"
  by (simp add: represented_def getLines_alt)

lemma update_records_cong:
  "records st' = records st \<Longrightarrow> records (update equal r st') = records (update equal r st)"
  by (cases "ids r") (simp add: update_def Let_def getLines_alt)

lemma represented_update_mono:
  "represented equal st r \<Longrightarrow> represented equal (update equal q st) r"
  by (auto simp: represented_def update_getLines list_ex_iff)

lemma represented_after_update:
  "equal r r \<Longrightarrow> represented equal (update equal r st) r"
proof (cases "represented equal st r")
  case True
  then show ?thesis by (simp add: update_noop)
next
  case False
  assume "equal r r"
  with False show ?thesis
    unfolding represented_def update_getLines
    by (auto simp: same_couple_def list_ex_iff represented_def)
qed

text \<open>One step of \<^verbatim>\<open>plus\<close>: what it does to the registry and to the records.\<close>

lemma plus_line_registry:
  "registredPublications (plus_line equal st r) =
     (if known_in (registredPublications st) r then registredPublications st
      else (registredPublications st)(pmid r \<mapsto> toLowerCase (source r)))"
  by (simp add: plus_line_def checkPsqData_alt)

lemma plus_line_records:
  "records (plus_line equal st r) =
     (if accepted_by (registredPublications (plus_line equal st r)) r
      then records (update equal r st) else records st)"
  by (auto simp: plus_line_def checkPsqData_alt accepted_by_def known_in_def
      intro!: update_records_cong)

lemma plus_line_keep_raw [simp]: "keep_raw (plus_line equal st r) = keep_raw st"
  by (simp add: plus_line_def checkPsqData_alt)

lemma known_in_step:
  "known_in (registredPublications st) r \<Longrightarrow> known_in (registredPublications (plus_line equal st q)) r"
  by (auto simp: plus_line_registry known_in_def)

lemma accepted_by_step:
  "known_in (registredPublications st) r \<Longrightarrow>
     accepted_by (registredPublications (plus_line equal st q)) r
       = accepted_by (registredPublications st) r"
  by (auto simp: plus_line_registry known_in_def accepted_by_def)

lemma represented_step:
  "represented equal st r \<Longrightarrow> represented equal (plus_line equal st q) r"
proof -
  assume a: "represented equal st r"
  have "records (plus_line equal st q) = records (update equal q st)
        \<or> records (plus_line equal st q) = records st"
    by (simp add: plus_line_records)
  then show ?thesis
    using represented_update_mono[OF a, of q]
      represented_records[of "plus_line equal st q" "update equal q st" equal r]
      represented_records[of "plus_line equal st q" st equal r] a
    by auto
qed

lemma settled_step:
  "settled equal st r \<Longrightarrow> settled equal (plus_line equal st q) r"
  by (auto simp: settled_def known_in_step accepted_by_step represented_step)

lemma settled_noop:
  "settled equal st r \<Longrightarrow> plus_line equal st r = st"
  by (auto simp: settled_def plus_line_def checkPsqData_alt update_noop)

lemma plus_line_settles:
  "equal r r \<Longrightarrow> settled equal (plus_line equal st r) r"
proof -
  assume e: "equal r r"
  show ?thesis
  proof (cases "known_in (registredPublications st) r")
    case True
    then show ?thesis
      using represented_after_update[of equal r st] e
      by (auto simp: settled_def plus_line_def checkPsqData_alt)
  next
    case False
    let ?st1 = "st\<lparr>registredPublications :=
                      (registredPublications st)(pmid r \<mapsto> toLowerCase (source r))\<rparr>"
    from False have "plus_line equal st r = update equal r ?st1"
      by (simp add: plus_line_def checkPsqData_alt)
    then show ?thesis
      using represented_after_update[of equal r ?st1] e
      by (simp add: settled_def known_in_def)
  qed
qed

lemma foldl_plus_settled:
  "settled equal st r \<Longrightarrow> settled equal (foldl (plus_line equal) st ls) r"
  by (induction ls arbitrary: st) (simp_all add: settled_step)

lemma foldl_plus_settles:
  "list_all (\<lambda>r. equal r r) ls \<Longrightarrow>
     list_all (settled equal (foldl (plus_line equal) st ls)) ls"
proof (induction ls arbitrary: st)
  case Nil
  then show ?case by simp
next
  case (Cons r ls)
  then have "settled equal (plus_line equal st r) r" by (simp add: plus_line_settles)
  with Cons show ?case by (simp add: foldl_plus_settled)
qed

lemma foldl_plus_noop:
  "list_all (settled equal st) ls \<Longrightarrow> foldl (plus_line equal) st ls = st"
  by (induction ls) (simp_all add: settled_noop)

lemma plus_twice:
  "list_all (\<lambda>r. equal r r) (all_lines other) \<Longrightarrow>
     plus equal (plus equal st other) other = plus equal st other"
  unfolding plus_def by (rule foldl_plus_noop) (rule foldl_plus_settles)


lemma wf_entries_get:
  "wf_entries m \<Longrightarrow> e \<in> set m \<Longrightarrow> rkm_get m (fst e) = Some (snd e)"
proof (induction m)
  case Nil
  then show ?case by simp
next
  case (Cons e0 m)
  show ?case
  proof (cases "e = e0")
    case True
    then show ?thesis by (simp add: rkm_get_def)
  next
    case False
    with Cons.prems have em: "e \<in> set m" by simp
    with Cons.prems have "\<not> same_couple (fst e0) (fst e)"
      using same_couple_sym[of "fst e0" "fst e"] by (auto simp: list_all_iff)
    with Cons em show ?thesis by (simp add: rkm_get_def)
  qed
qed

lemma wf_entries_lines:
  "wf_entries m \<Longrightarrow> e \<in> set m \<Longrightarrow> r \<in> set (snd e) \<Longrightarrow> same_couple (ids r) (fst e)"
  by (induction m) (auto simp: list_all_iff)

lemma rkm_get_Some_in: "rkm_get m k = Some v \<Longrightarrow> \<exists>e \<in> set m. snd e = v \<and> same_couple (fst e) k"
  by (induction m) (auto simp: rkm_get_def split: if_splits)

lemma rkm_set_keys: "e' \<in> set (rkm_set m k v) \<Longrightarrow> fst e' = k \<or> fst e' \<in> fst ` set m"
  by (induction m) (auto split: if_splits)

lemma wf_entries_set:
  "wf_entries m \<Longrightarrow> list_all (\<lambda>r. same_couple (ids r) k) v \<Longrightarrow> wf_entries (rkm_set m k v)"
proof (induction m)
  case Nil
  then show ?case by simp
next
  case (Cons e m)
  show ?case
  proof (cases "same_couple (fst e) k")
    case True
    then have "same_couple (ids r) k \<Longrightarrow> same_couple (ids r) (fst e)" for r
      using same_couple_trans[of "fst e" k "ids r"] by simp
    with True Cons.prems show ?thesis by (auto simp: list_all_iff)
  next
    case False
    have "\<not> same_couple (fst e') (fst e)" if "e' \<in> set (rkm_set m k v)" for e'
      using rkm_set_keys[OF that] False Cons.prems(1) same_couple_sym[of k "fst e"]
      by (auto simp: list_all_iff)
    with False Cons show ?thesis by (simp add: list_all_iff)
  qed
qed

lemma wf_store_update: "wf_store st \<Longrightarrow> wf_store (update equal psq st)"
proof -
  assume wf: "wf_store st"
  obtain id1 id2 where i: "ids psq = (id1, id2)" by (cases "ids psq") auto
  have "list_all (\<lambda>r. same_couple (ids r) (id1, id2)) (getLines st id1 id2)"
  proof (cases "rkm_get (records st) (id1, id2)")
    case None
    then show ?thesis by (simp add: getLines_alt)
  next
    case (Some v)
    from rkm_get_Some_in[OF Some] obtain e where
      e: "e \<in> set (records st)" "snd e = v" "same_couple (fst e) (id1, id2)" by blast
    have "same_couple (ids r) (id1, id2)" if "r \<in> set v" for r
      using wf_entries_lines[OF wf[unfolded wf_store_def] e(1)] that e(2,3)
        same_couple_trans[of "fst e" "(id1, id2)" "ids r"] by simp
    with Some show ?thesis by (simp add: getLines_alt list_all_iff)
  qed
  with wf i show ?thesis
    by (simp add: update_def Let_def wf_store_def wf_entries_set)
qed

lemma wf_store_plus_line: "wf_store st \<Longrightarrow> wf_store (plus_line equal st r)"
proof -
  assume wf: "wf_store st"
  have "records (plus_line equal st r) = records (update equal r st)
        \<or> records (plus_line equal st r) = records st"
    by (simp add: plus_line_records)
  with wf wf_store_update[OF wf, of equal r] show ?thesis
    by (auto simp: wf_store_def)
qed

lemma wf_store_foldl: "wf_store st \<Longrightarrow> wf_store (foldl (plus_line equal) st ls)"
  by (induction ls arbitrary: st) (simp_all add: wf_store_plus_line)

lemma wf_store_plus: "wf_store st \<Longrightarrow> wf_store (plus equal st other)"
  unfolding plus_def by (rule wf_store_foldl)


text \<open>Merging a store into itself.\<close>

lemma wf_store_represented:
  assumes "wf_store st" "r \<in> set (all_lines st)" "equal r r"
  shows "represented equal st r"
proof -
  from assms(2) obtain e where e: "e \<in> set (records st)" "r \<in> set (snd e)"
    by (auto simp: all_lines_def)
  from assms(1) have wf: "wf_entries (records st)" by (simp add: wf_store_def)
  from wf_entries_get[OF wf e(1)] have g: "rkm_get (records st) (fst e) = Some (snd e)" .
  from wf_entries_lines[OF wf e] have c: "same_couple (ids r) (fst e)" .
  have "same_couple (fst e) (fst (ids r), snd (ids r))"
    using c same_couple_sym[of "ids r" "fst e"] by simp
  from rkm_get_same[OF this] g have "getLines st (fst (ids r)) (snd (ids r)) = snd e"
    by (simp add: getLines_alt)
  with e assms(3) show ?thesis by (auto simp: represented_def list_ex_iff)
qed

lemma foldl_plus_self_records:
  "list_all (represented equal st) ls \<Longrightarrow>
     records (foldl (plus_line equal) st ls) = records st"
proof (induction ls arbitrary: st)
  case Nil
  then show ?case by simp
next
  case (Cons r ls)
  from Cons.prems have r: "represented equal st r" by simp
  then have rec: "records (plus_line equal st r) = records st"
    by (simp add: plus_line_records update_noop)
  from Cons.prems have "list_all (represented equal (plus_line equal st r)) ls"
    by (simp add: list_all_iff represented_step)
  from Cons.IH[OF this] rec show ?case by simp
qed

lemma plus_self:
  "wf_store st \<Longrightarrow> list_all (\<lambda>r. equal r r) (all_lines st) \<Longrightarrow>
     records (plus equal st st) = records st"
  unfolding plus_def
  by (rule foldl_plus_self_records) (auto simp: list_all_iff wf_store_represented)






lemma foldl_plus_keep_raw [simp]: "keep_raw (foldl (plus_line equal) st ls) = keep_raw st"
  by (induction ls arbitrary: st) simp_all

lemma foldl_update_fields [simp]:
  "keep_raw (foldl (\<lambda>s r. update equal r s) st ls) = keep_raw st"
  "registredPublications (foldl (\<lambda>s r. update equal r s) st ls) = registredPublications st"
  by (induction ls arbitrary: st) simp_all





lemmas store_eval =
  plus_def plus_line_def all_lines_def checkPsqData_def update_def getLines_def hasCouple_def
  rkm_hasCouple_def rkm_get_def same_couple_def new_PSICQuic_def toLowerCase_def
  object_prototype_keys_def accepted_by_def known_in_def Let_def
  psqA_def psqB_def psqC_def

text \<open>
  Claim C6: where \<^verbatim>\<open>equal\<close> holds of each merged record and itself, merging a store a
  second time changes nothing, and merging a well-formed store into itself leaves its
  records as they were. In the self-merge every single step leaves the records alone,
  so iterating over the records while they are being updated reads what a copy would
  give. The empty store is well formed, and \<^verbatim>\<open>update\<close> and \<^verbatim>\<open>plus\<close> keep a store so.
\<close>

theorem plus_idempotent:
  "(list_all (\<lambda>r. equal r r) (all_lines other)
      \<longrightarrow> plus equal (plus equal st other) other = plus equal st other)
   \<and> (wf_store st \<and> list_all (\<lambda>r. equal r r) (all_lines st)
      \<longrightarrow> records (plus equal st st) = records st
          \<and> list_all (\<lambda>r. records (plus_line equal st r) = records st) (all_lines st))
   \<and> wf_store new_PSICQuic
   \<and> (wf_store st \<longrightarrow> wf_store (update equal psq st) \<and> wf_store (plus equal st other))"
proof (intro conjI impI)
  assume "list_all (\<lambda>r. equal r r) (all_lines other)"
  then show "plus equal (plus equal st other) other = plus equal st other"
    by (rule plus_twice)
next
  assume a: "wf_store st \<and> list_all (\<lambda>r. equal r r) (all_lines st)"
  then show "records (plus equal st st) = records st"
    by (simp add: plus_self)
  from a have "represented equal st r" if "r \<in> set (all_lines st)" for r
    using wf_store_represented[of st r equal] that by (auto simp: list_all_iff)
  then show "list_all (\<lambda>r. records (plus_line equal st r) = records st) (all_lines st)"
    by (simp add: list_all_iff plus_line_records update_noop)
next
  show "wf_store new_PSICQuic" by (simp add: wf_store_def new_PSICQuic_def)
next
  assume "wf_store st"
  then show "wf_store (update equal psq st)" by (rule wf_store_update)
next
  assume "wf_store st"
  then show "wf_store (plus equal st other)" by (rule wf_store_plus)
qed

lemma store3_records:
  "records store3 = [((''x'', ''y''), [psqA, psqC]), ((''x'', ''z''), [psqB])]"
  "registredPublications store3 = Map.empty"
  by (simp_all add: store3_def store_eval)


lemma psq_ids:
  "ids psqA = (''x'', ''y'')" "ids psqB = (''x'', ''z'')" "ids psqC = (''y'', ''x'')"
  "pmid psqA = ''p1''" "pmid psqB = ''p1''" "pmid psqC = ''p2''"
  "psqA \<noteq> psqB" "psqA \<noteq> psqC" "psqB \<noteq> psqC" "psqB \<noteq> psqA" "psqC \<noteq> psqA" "psqC \<noteq> psqB"
  "toLowerCase (source psqA) = ''intact''" "toLowerCase (source psqB) = ''mint''"
  "toLowerCase (source psqC) = ''intact''"
  by (simp_all add: psqA_def psqB_def psqC_def toLowerCase_def char_of_def bit_0)



text \<open>
  The unchecked \<^verbatim>\<open>plus\<close> of the second copy of the class does what C5 says as it is
  written: every record of the other store goes to \<^verbatim>\<open>update\<close>.
\<close>

lemma foldl_over_concat: "foldl f a (concat xss) = foldl (\<lambda>s xs. foldl f s xs) a xss"
  by (induction xss arbitrary: a) simp_all

lemma plus_add_adds_all:
  "plus_add equal st other = foldl (\<lambda>s r. update equal r s) st (all_lines other)"
  by (simp add: plus_add_def add_psqs_def all_lines_def foldl_over_concat foldl_map)


text \<open>C6 with equality of records as \<^verbatim>\<open>equal\<close>.\<close>

theorem plus_idempotent_witness:
  "wf_store store3 \<and> list_all (\<lambda>r. r = r) (all_lines store3)
   \<and> plus (=) (plus (=) new_PSICQuic store3) store3 = plus (=) new_PSICQuic store3
   \<and> records (plus (=) store3 store3) = records store3"
proof -
  have w: "wf_store store3"
    by (simp add: wf_store_def store3_records psq_ids same_couple_def)
  from plus_idempotent[of "(=)" store3 new_PSICQuic] plus_idempotent[of "(=)" store3 store3] w
  show ?thesis by (simp add: list_all_iff)
qed

text \<open>C7 on a store of one record: the same record again, then one of the reversed couple.\<close>

theorem update_appends_unless_equal_witness:
  "update (=) psqA (update (=) psqA new_PSICQuic) = update (=) psqA new_PSICQuic
   \<and> getLines (update (=) psqC (update (=) psqA new_PSICQuic)) ''x'' ''y'' = [psqA, psqC]
   \<and> getLines (update (=) psqC (update (=) psqA new_PSICQuic)) ''y'' ''x'' = [psqA, psqC]
   \<and> getLines (update (=) psqC (update (=) psqA new_PSICQuic)) ''x'' ''z'' = []"
proof -
  let ?st = "update (=) psqA new_PSICQuic"
  have g: "getLines ?st ''x'' ''y'' = [psqA]" "getLines ?st ''y'' ''x'' = [psqA]"
    "getLines ?st ''x'' ''z'' = []"
    by (simp_all add: update_def getLines_def hasCouple_def rkm_hasCouple_def rkm_get_def
        same_couple_def new_PSICQuic_def psq_ids)
  from update_appends_unless_equal[of "(=)" psqA ?st] update_appends_unless_equal[of "(=)" psqC ?st] g
  show ?thesis by (simp add: psq_ids same_couple_def)
qed

end
